theory Spec2Isabelle
  imports Complex_Main "HOL-Library.Sublist" "HOL-Library.Char_ord" "HOL-Library.List_Lexorder"
begin

section \<open>Data model: frames, columns, errors\<close>

text \<open>
  The program of \<^verbatim>\<open>model.py\<close> works on pandas data frames. A frame is modelled as its
  number of rows (the index) and its labelled columns, in frame order. A column carries its
  dtype, because \<^verbatim>\<open>pd.cut\<close> and \<^verbatim>\<open>pd.get_dummies\<close> branch on it:
  \<^item> \<open>NumCol\<close>: a numeric column (int64 or float64), the values as rationals;
  \<^item> \<open>ObjCol\<close>: an object column of strings, \<open>None\<close> for a missing cell;
  \<^item> \<open>CatCol\<close>: a column of categorical dtype, with the categories of the dtype (in their
    order) and the values, \<open>None\<close> for NaN.
  Missing cells of numeric columns are outside the model.
\<close>

datatype column =
    NumCol "rat list"
  | ObjCol "string option list"
  | CatCol "string list" "string option list"

record frame =
  nrows :: nat
  columns :: "(string \<times> column) list"

type_synonym matrix = "rat list list"

text \<open>
  Exceptions of Python and the \<^verbatim>\<open>st.error\<close> message of the upload branch are values.
\<close>

datatype error =
    KeyError string
  | TypeError
  | ValueError
  | IndexError
  | ZeroDivisionError
  | MissingRequiredColumns "string list"

text \<open>The fitted scaler is an external artifact: only its \<^verbatim>\<open>transform\<close> is used.\<close>

type_synonym scaler = "matrix \<Rightarrow> error + matrix"

text \<open>
  The classifier is an external artifact. \<^verbatim>\<open>predict\<close> gives one class per row,
  \<^verbatim>\<open>predict_proba\<close> one row of two class probabilities (class 0, class 1) per row.
\<close>

record classifier =
  predict :: "matrix \<Rightarrow> int list"
  predict_proba :: "matrix \<Rightarrow> (rat \<times> rat) list"

definition column_names :: "frame \<Rightarrow> string list" where
  "column_names df = map fst (columns df)"

fun col_length :: "column \<Rightarrow> nat" where
  "col_length (NumCol xs) = length xs"
| "col_length (ObjCol vs) = length vs"
| "col_length (CatCol cats vs) = length vs"

fun wf_column :: "nat \<Rightarrow> column \<Rightarrow> bool" where
  "wf_column n (NumCol xs) = (length xs = n)"
| "wf_column n (ObjCol vs) = (length vs = n)"
| "wf_column n (CatCol cats vs) = (length vs = n \<and> distinct cats)"

text \<open>
  A frame as pandas builds it from a CSV file or from a dict: unique column labels, every
  column as long as the index, the categories of a categorical dtype unique.
\<close>

definition wf_frame :: "frame \<Rightarrow> bool" where
  "wf_frame df \<longleftrightarrow>
     distinct (column_names df) \<and> list_all (\<lambda>p. wf_column (nrows df) (snd p)) (columns df)"

section \<open>Frame operations of pandas used by the program\<close>

text \<open>\<^verbatim>\<open>df[c]\<close> for one label: all columns of that label, in frame order.\<close>

definition cols_named :: "frame \<Rightarrow> string \<Rightarrow> (string \<times> column) list" where
  "cols_named df c = filter (\<lambda>p. fst p = c) (columns df)"

text \<open>
  \<^verbatim>\<open>df[c]\<close> read as a series: KeyError when no column has the label; with a repeated label
  pandas gives a frame, which \<^verbatim>\<open>pd.cut\<close> rejects as not one-dimensional.
\<close>

definition get_series :: "frame \<Rightarrow> string \<Rightarrow> error + column" where
  "get_series df c =
     (case cols_named df c of
        [] \<Rightarrow> Inl (KeyError c)
      | [p] \<Rightarrow> Inr (snd p)
      | _ \<Rightarrow> Inl ValueError)"

text \<open>
  \<^verbatim>\<open>df[c] = v\<close>: a new label is appended as the last column, an existing label keeps its
  place and takes the new values.
\<close>

definition setitem :: "frame \<Rightarrow> string \<Rightarrow> column \<Rightarrow> frame" where
  "setitem df c v =
     (if c \<in> set (column_names df)
      then df\<lparr>columns := map (\<lambda>p. if fst p = c then (fst p, v) else p) (columns df)\<rparr>
      else df\<lparr>columns := columns df @ [(c, v)]\<rparr>)"

text \<open>
  \<^verbatim>\<open>df[cs]\<close> for a list of labels: KeyError when a label has no column; otherwise, for each
  label of the list in turn, every column of that label.
\<close>

definition select :: "frame \<Rightarrow> string list \<Rightarrow> error + frame" where
  "select df cs =
     (case filter (\<lambda>c. c \<notin> set (column_names df)) cs of
        [] \<Rightarrow> Inr (df\<lparr>columns := concat (map (cols_named df) cs)\<rparr>)
      | c # _ \<Rightarrow> Inl (KeyError c))"

subsection \<open>Binning: \<^verbatim>\<open>pd.cut(x, bins, labels, right=False)\<close>\<close>

text \<open>
  pandas finds the bin of a value with \<^verbatim>\<open>bins.searchsorted(x, side='right')\<close>, the number of
  boundaries that are at most the value (the boundaries are increasing), and gives NaN when
  that is 0 or the number of boundaries; otherwise the label before that position.
\<close>

definition searchsorted_right :: "rat list \<Rightarrow> rat \<Rightarrow> nat" where
  "searchsorted_right bins x = length (filter (\<lambda>b. b \<le> x) bins)"

definition cut1 :: "rat list \<Rightarrow> string list \<Rightarrow> rat \<Rightarrow> string option" where
  "cut1 bins labels x =
     (let ids = searchsorted_right bins x
      in if ids = 0 \<or> ids = length bins then None else Some (labels ! (ids - 1)))"

text \<open>
  The cut of a column: a categorical column whose categories are all the labels. A column
  that is not numeric raises TypeError; as many labels as bins raise ValueError.
\<close>

fun cut :: "column \<Rightarrow> rat list \<Rightarrow> string list \<Rightarrow> error + column" where
  "cut (NumCol xs) bins labels =
     (if Suc (length labels) \<noteq> length bins then Inl ValueError
      else Inr (CatCol labels (map (cut1 bins labels) xs)))"
| "cut (ObjCol vs) bins labels = Inl TypeError"
| "cut (CatCol cats vs) bins labels = Inl TypeError"

subsection \<open>One-hot encoding: \<^verbatim>\<open>pd.get_dummies(df, drop_first=True)\<close>\<close>

fun is_encoded :: "column \<Rightarrow> bool" where
  "is_encoded (NumCol xs) = False"
| "is_encoded (ObjCol vs) = True"
| "is_encoded (CatCol cats vs) = True"

fun cells :: "column \<Rightarrow> string option list" where
  "cells (NumCol xs) = []"
| "cells (ObjCol vs) = vs"
| "cells (CatCol cats vs) = vs"

text \<open>The distinct values that occur in a column, missing cells left out.\<close>

definition observed :: "column \<Rightarrow> string list" where
  "observed col = remdups (concat (map (\<lambda>v. case v of None \<Rightarrow> [] | Some s \<Rightarrow> [s]) (cells col)))"

text \<open>
  The levels that pandas encodes: for an object column the sorted distinct values that
  occur, for a categorical column every category of the dtype, whether it occurs or not.
\<close>

fun levels :: "column \<Rightarrow> string list" where
  "levels (NumCol xs) = []"
| "levels (ObjCol vs) = sort (observed (ObjCol vs))"
| "levels (CatCol cats vs) = cats"

text \<open>
  One indicator column per level but the first, named prefix, underscore, level; a missing
  cell has 0 in each of them. No level or one level gives no column.
\<close>

definition dummies_1d :: "string \<Rightarrow> column \<Rightarrow> (string \<times> column) list" where
  "dummies_1d pre col =
     map (\<lambda>l. (pre @ ''_'' @ l, NumCol (map (\<lambda>v. if v = Some l then 1 else 0) (cells col))))
       (drop 1 (levels col))"

text \<open>
  The columns that are not encoded come first, in frame order, then the indicator columns of
  each encoded column, in frame order.
\<close>

definition get_dummies :: "frame \<Rightarrow> frame" where
  "get_dummies df =
     df\<lparr>columns :=
          filter (\<lambda>p. \<not> is_encoded (snd p)) (columns df)
          @ concat (map (\<lambda>p. if is_encoded (snd p) then dummies_1d (fst p) (snd p) else [])
                      (columns df))\<rparr>"

subsection \<open>From an aligned frame to the matrix of the scaler\<close>

fun is_num :: "column \<Rightarrow> bool" where
  "is_num (NumCol xs) = True"
| "is_num (ObjCol vs) = False"
| "is_num (CatCol cats vs) = False"

fun num_values :: "column \<Rightarrow> rat list" where
  "num_values (NumCol xs) = xs"
| "num_values (ObjCol vs) = []"
| "num_values (CatCol cats vs) = []"

text \<open>
  The rows of a frame of numeric columns; a column of strings cannot be converted
  (ValueError). In a well-formed frame every column has a value at every row.
\<close>

definition to_matrix :: "frame \<Rightarrow> error + matrix" where
  "to_matrix df =
     (if list_all (\<lambda>p. is_num (snd p)) (columns df)
      then Inr (map (\<lambda>i. map (\<lambda>p. num_values (snd p) ! i) (columns df)) [0..<nrows df])
      else Inl ValueError)"

section \<open>The preprocessing pipeline: \<^verbatim>\<open>preprocess_input\<close>\<close>

definition age_bins :: "rat list" where
  "age_bins = [21, 29, 37, 46, 54, 62]"

definition age_labels :: "string list" where
  "age_labels = [''21-28'', ''29-36'', ''37-45'', ''46-53'', ''54-61'']"

definition tenure_bins :: "rat list" where
  "tenure_bins = [0, 6, 12, 18, 24, 30]"

definition tenure_labels :: "string list" where
  "tenure_labels = [''0-5'', ''6-11'', ''12-17'', ''18-23'', ''24-29'']"

definition salary_bins :: "rat list" where
  "salary_bins = [40000, 60000, 80000, 100000, 130000]"

definition salary_labels :: "string list" where
  "salary_labels = [''low'', ''medium'', ''high'', ''very_high'']"

definition features :: "string list" where
  "features = [''no_of_projects'', ''salary_bin'', ''age_group'', ''tenure_group'',
               ''dept_name'', ''title'', ''sex'', ''Last_performance_rating'']"

text \<open>\<^verbatim>\<open>pd.cut(input_df[src], ...)\<close>: the read of the column, then the cut.\<close>

definition cut_column :: "frame \<Rightarrow> string \<Rightarrow> rat list \<Rightarrow> string list \<Rightarrow> error + column" where
  "cut_column df src bins labels =
     (case get_series df src of Inl e \<Rightarrow> Inl e | Inr col \<Rightarrow> cut col bins labels)"

text \<open>
  The three assignments of derived columns. They write into the frame of the caller, so the
  frame is returned with the result; an exception leaves the assignments made before it.
\<close>

definition bin_features :: "frame \<Rightarrow> frame \<times> (error + unit)" where
  "bin_features input_df =
     (case cut_column input_df ''age'' age_bins age_labels of
        Inl e \<Rightarrow> (input_df, Inl e)
      | Inr age_group \<Rightarrow>
          let df1 = setitem input_df ''age_group'' age_group
          in (case cut_column df1 ''tenure'' tenure_bins tenure_labels of
                Inl e \<Rightarrow> (df1, Inl e)
              | Inr tenure_group \<Rightarrow>
                  let df2 = setitem df1 ''tenure_group'' tenure_group
                  in (case cut_column df2 ''salary'' salary_bins salary_labels of
                        Inl e \<Rightarrow> (df2, Inl e)
                      | Inr salary_bin \<Rightarrow> (setitem df2 ''salary_bin'' salary_bin, Inr ()))))"

text \<open>
  The alignment with the columns of the model: every model column that the encoded frame
  lacks is assigned the scalar 0, then the model columns are selected. The source iterates
  over a Python set; the model takes the missing labels in the order of the model columns.
\<close>

definition zero_column :: "frame \<Rightarrow> column" where
  "zero_column df = NumCol (replicate (nrows df) 0)"

definition missing_cols :: "frame \<Rightarrow> string list \<Rightarrow> string list" where
  "missing_cols encoded_df model_columns =
     filter (\<lambda>c. c \<notin> set (column_names encoded_df)) (remdups model_columns)"

definition add_missing :: "frame \<Rightarrow> string list \<Rightarrow> frame" where
  "add_missing encoded_df cs = fold (\<lambda>col df. setitem df col (zero_column df)) cs encoded_df"

definition align_columns :: "frame \<Rightarrow> string list \<Rightarrow> error + frame" where
  "align_columns encoded_df model_columns =
     select (add_missing encoded_df (missing_cols encoded_df model_columns)) model_columns"

text \<open>
  Selection of the features and encoding; then alignment and conversion to the matrix; then
  scaling. All three work on the binned frame.
\<close>

definition encode_features :: "frame \<Rightarrow> error + frame" where
  "encode_features df =
     (case select df features of Inl e \<Rightarrow> Inl e | Inr processed_df \<Rightarrow> Inr (get_dummies processed_df))"

definition aligned_matrix :: "frame \<Rightarrow> string list \<Rightarrow> error + matrix" where
  "aligned_matrix df model_columns =
     (case encode_features df of
        Inl e \<Rightarrow> Inl e
      | Inr encoded_df \<Rightarrow>
          (case align_columns encoded_df model_columns of
             Inl e \<Rightarrow> Inl e
           | Inr aligned \<Rightarrow> to_matrix aligned))"

definition transform_features :: "frame \<Rightarrow> string list \<Rightarrow> scaler \<Rightarrow> error + matrix" where
  "transform_features df model_columns scaler =
     (case aligned_matrix df model_columns of Inl e \<Rightarrow> Inl e | Inr m \<Rightarrow> scaler m)"

definition preprocess_input :: "frame \<Rightarrow> string list \<Rightarrow> scaler \<Rightarrow> frame \<times> (error + matrix)" where
  "preprocess_input input_df model_columns scaler =
     (case bin_features input_df of
        (df, Inl e) \<Rightarrow> (df, Inl e)
      | (df, Inr u) \<Rightarrow> (df, transform_features df model_columns scaler))"

section \<open>The application: \<^verbatim>\<open>main_app\<close>\<close>

definition required_cols :: "string list" where
  "required_cols = [''age'', ''tenure'', ''salary'', ''dept_name'', ''title'',
                    ''sex'', ''Last_performance_rating'', ''no_of_projects'']"

text \<open>
  What the upload branch shows: the frame with its two new columns and the three metrics.
\<close>

record report =
  shown :: frame
  total :: nat
  stay :: nat
  leave :: nat

text \<open>
  Assignment of a list as a column: pandas raises ValueError when the list is not as long as
  the index.
\<close>

definition setitem_list :: "frame \<Rightarrow> string \<Rightarrow> column \<Rightarrow> error + frame" where
  "setitem_list df c v = (if col_length v = nrows df then Inr (setitem df c v) else Inl ValueError)"

text \<open>
  The branch "Upload CSV", from the frame read from the file. The frame is the one the
  caller holds: it is returned as the branch leaves it. The percentages of the metrics divide
  by the number of rows.
\<close>

definition main_app_upload ::
  "frame \<Rightarrow> classifier \<Rightarrow> scaler \<Rightarrow> string list \<Rightarrow> frame \<times> (error + report)" where
  "main_app_upload df model scaler model_columns =
     (if list_all (\<lambda>col. col \<in> set (column_names df)) required_cols
      then
        (case preprocess_input df model_columns scaler of
           (df1, Inl e) \<Rightarrow> (df1, Inl e)
         | (df1, Inr processed_data) \<Rightarrow>
             let predictions = predict model processed_data;
                 probabilities = map snd (predict_proba model processed_data)
             in (case setitem_list df1 ''Prediction''
                        (ObjCol (map (\<lambda>p. Some (if p = 1 then ''Leave'' else ''Stay'')) predictions)) of
                   Inl e \<Rightarrow> (df1, Inl e)
                 | Inr df2 \<Rightarrow>
                     (case setitem_list df2 ''Probability'' (NumCol probabilities) of
                        Inl e \<Rightarrow> (df2, Inl e)
                      | Inr df3 \<Rightarrow>
                          if nrows df3 = 0 then (df3, Inl ZeroDivisionError)
                          else (df3, Inr \<lparr>shown = df3, total = nrows df3,
                                  stay = length (filter (\<lambda>p. p \<noteq> 1) predictions),
                                  leave = length (filter (\<lambda>p. p = 1) predictions)\<rparr>))))
      else (df, Inl (MissingRequiredColumns required_cols)))"

text \<open>
  The branch "Manual Input": the frame of one row built from the form, and the message shown.
  The message for a prediction of 1 carries the probability of class 1, the other message
  one minus that probability.
\<close>

datatype message = WillLeave rat | WillStay rat

definition form_frame ::
  "int \<Rightarrow> int \<Rightarrow> int \<Rightarrow> int \<Rightarrow> string \<Rightarrow> string \<Rightarrow> string \<Rightarrow> string \<Rightarrow> frame" where
  "form_frame no_of_projects salary age tenure dept_name title sex rating =
     \<lparr>nrows = 1,
      columns = [(''age'', NumCol [of_int age]),
                 (''tenure'', NumCol [of_int tenure]),
                 (''salary'', NumCol [of_int salary]),
                 (''no_of_projects'', NumCol [of_int no_of_projects]),
                 (''dept_name'', ObjCol [Some dept_name]),
                 (''title'', ObjCol [Some title]),
                 (''sex'', ObjCol [Some sex]),
                 (''Last_performance_rating'', ObjCol [Some rating])]\<rparr>"

definition main_app_manual ::
  "frame \<Rightarrow> classifier \<Rightarrow> scaler \<Rightarrow> string list \<Rightarrow> error + message" where
  "main_app_manual input_df model scaler model_columns =
     (case snd (preprocess_input input_df model_columns scaler) of
        Inl e \<Rightarrow> Inl e
      | Inr processed_data \<Rightarrow>
          (case predict model processed_data of
             [] \<Rightarrow> Inl IndexError
           | prediction # _ \<Rightarrow>
               (case predict_proba model processed_data of
                  [] \<Rightarrow> Inl IndexError
                | row # _ \<Rightarrow>
                    let probability = snd row
                    in if prediction = 1 then Inr (WillLeave probability)
                       else Inr (WillStay (1 - probability)))))"

section \<open>Notions used in the statements\<close>

text \<open>
  A valid batch: a well-formed frame that has the eight required columns, with \<open>age\<close>,
  \<open>tenure\<close> and \<open>salary\<close> numeric.
\<close>

definition is_numeric_col :: "frame \<Rightarrow> string \<Rightarrow> bool" where
  "is_numeric_col df c = (case get_series df c of Inr (NumCol xs) \<Rightarrow> True | _ \<Rightarrow> False)"

definition numeric_values :: "frame \<Rightarrow> string \<Rightarrow> rat list" where
  "numeric_values df c = (case get_series df c of Inr (NumCol xs) \<Rightarrow> xs | _ \<Rightarrow> [])"

definition valid_input :: "frame \<Rightarrow> bool" where
  "valid_input df \<longleftrightarrow>
     wf_frame df
     \<and> list_all (\<lambda>c. c \<in> set (column_names df)) required_cols
     \<and> list_all (is_numeric_col df) [''age'', ''tenure'', ''salary'']"

text \<open>The frame of the caller with the three derived columns assigned.\<close>

definition with_bins :: "frame \<Rightarrow> frame" where
  "with_bins df =
     setitem
       (setitem
          (setitem df ''age_group''
             (CatCol age_labels (map (cut1 age_bins age_labels) (numeric_values df ''age''))))
          ''tenure_group''
          (CatCol tenure_labels (map (cut1 tenure_bins tenure_labels) (numeric_values df ''tenure''))))
       ''salary_bin''
       (CatCol salary_labels (map (cut1 salary_bins salary_labels) (numeric_values df ''salary'')))"

text \<open>
  The labels of a frame do not clash under encoding when no label followed by an underscore
  begins another label: then no two indicator columns, and no indicator column and kept
  column, share a name.
\<close>

definition dummy_clash_free :: "string list \<Rightarrow> bool" where
  "dummy_clash_free ns \<longleftrightarrow>
     list_all (\<lambda>n. list_all (\<lambda>m. n = m \<or> \<not> prefix (n @ ''_'') m) ns) ns"

definition dummy_names :: "(string \<times> column) list \<Rightarrow> string list" where
  "dummy_names cs =
     map fst (concat (map (\<lambda>p. if is_encoded (snd p) then dummies_1d (fst p) (snd p) else []) cs))"

text \<open>
  A scaler as scikit-learn's \<^verbatim>\<open>StandardScaler\<close> transforms: each row apart, every value
  minus the mean of its column, divided by the scale of its column; no row, or a row of
  another width than the fitted one, raises ValueError.
\<close>

definition standard_scaler :: "rat list \<Rightarrow> rat list \<Rightarrow> scaler" where
  "standard_scaler mean scale m =
     (if m = [] \<or> list_ex (\<lambda>r. length r \<noteq> length mean) m then Inl ValueError
      else Inr (map (\<lambda>r. map (\<lambda>(x, mu, s). (x - mu) / s) (zip r (zip mean scale))) m))"

text \<open>
  The frame of the eight features that the pipeline encodes, \<^verbatim>\<open>input_df[features]\<close>.
\<close>

definition processed_frame :: "frame \<Rightarrow> frame" where
  "processed_frame df = (case select df features of Inl e \<Rightarrow> df | Inr processed_df \<Rightarrow> processed_df)"

text \<open>
  The indicator columns of a feature in an encoded frame: the labels that begin with the
  name of the feature and an underscore, in frame order.
\<close>

definition generated_columns :: "string \<Rightarrow> frame \<Rightarrow> string list" where
  "generated_columns f encoded_df = filter (prefix (f @ ''_'')) (column_names encoded_df)"

text \<open>The probability that a message of the manual branch shows.\<close>

fun shown_probability :: "message \<Rightarrow> rat" where
  "shown_probability (WillLeave q) = q"
| "shown_probability (WillStay q) = q"

text \<open>The frame of one row of a frame, as \<^verbatim>\<open>df.iloc[[i]]\<close> gives it.\<close>

fun column_row :: "column \<Rightarrow> nat \<Rightarrow> column" where
  "column_row (NumCol xs) i = NumCol (take 1 (drop i xs))"
| "column_row (ObjCol vs) i = ObjCol (take 1 (drop i vs))"
| "column_row (CatCol cats vs) i = CatCol cats (take 1 (drop i vs))"

definition row_frame :: "frame \<Rightarrow> nat \<Rightarrow> frame" where
  "row_frame df i =
     \<lparr>nrows = (if i < nrows df then 1 else 0),
      columns = map (\<lambda>p. (fst p, column_row (snd p) i)) (columns df)\<rparr>"

section \<open>Example inputs\<close>

definition example_columns :: "string list" where
  "example_columns = [''no_of_projects'', ''age_group_29-36'', ''dept_name_Sales'',
                      ''title_Manager'']"

text \<open>Model columns for the salary: the count of projects and the three salary indicators.\<close>

definition example_salary_columns :: "string list" where
  "example_salary_columns = [''no_of_projects'', ''salary_bin_medium'', ''salary_bin_high'',
                             ''salary_bin_very_high'']"

definition example_scaler :: scaler where
  "example_scaler = standard_scaler [0, 0, 0, 0] [1, 1, 1, 1]"

text \<open>A file of two employees who differ in their department only.\<close>

definition example_batch :: frame where
  "example_batch =
     \<lparr>nrows = 2,
      columns = [(''age'', NumCol [30, 30]),
                 (''tenure'', NumCol [5, 5]),
                 (''salary'', NumCol [55000, 55000]),
                 (''dept_name'', ObjCol [Some ''Marketing'', Some ''Sales'']),
                 (''title'', ObjCol [Some ''Analyst'', Some ''Analyst'']),
                 (''sex'', ObjCol [Some ''F'', Some ''F'']),
                 (''Last_performance_rating'', ObjCol [Some ''B'', Some ''B'']),
                 (''no_of_projects'', NumCol [3, 3])]\<rparr>"

text \<open>The second employee of that file, alone.\<close>

definition example_record :: frame where
  "example_record =
     \<lparr>nrows = 1,
      columns = [(''age'', NumCol [30]),
                 (''tenure'', NumCol [5]),
                 (''salary'', NumCol [55000]),
                 (''dept_name'', ObjCol [Some ''Sales'']),
                 (''title'', ObjCol [Some ''Analyst'']),
                 (''sex'', ObjCol [Some ''F'']),
                 (''Last_performance_rating'', ObjCol [Some ''B'']),
                 (''no_of_projects'', NumCol [3])]\<rparr>"

text \<open>A file of four employees at the edges of the bins.\<close>

definition example_edges :: frame where
  "example_edges =
     \<lparr>nrows = 4,
      columns = [(''age'', NumCol [21, 28, 29, 61]),
                 (''tenure'', NumCol [0, 5, 6, 29]),
                 (''salary'', NumCol [40000, 59999, 60000, 129999]),
                 (''dept_name'', ObjCol [Some ''Sales'', Some ''Sales'', Some ''Sales'', Some ''Sales'']),
                 (''title'', ObjCol [Some ''Analyst'', Some ''Analyst'', Some ''Analyst'', Some ''Analyst'']),
                 (''sex'', ObjCol [Some ''F'', Some ''M'', Some ''F'', Some ''M'']),
                 (''Last_performance_rating'', ObjCol [Some ''A'', Some ''B'', Some ''B'', Some ''C'']),
                 (''no_of_projects'', NumCol [1, 2, 3, 4])]\<rparr>"

text \<open>
  The frame of the form for an employee with a salary of 130000, the largest that the form
  accepts.
\<close>

definition example_top_salary :: frame where
  "example_top_salary = form_frame 3 130000 30 5 ''Sales'' ''Analyst'' ''F'' ''B''"

text \<open>The encoded frame of that file, before alignment.\<close>

definition example_encoded :: frame where
  "example_encoded =
     \<lparr>nrows = 2,
      columns = [(''no_of_projects'', NumCol [3, 3]),
                 (''salary_bin_medium'', NumCol [0, 0]),
                 (''salary_bin_high'', NumCol [0, 0]),
                 (''salary_bin_very_high'', NumCol [0, 0]),
                 (''age_group_29-36'', NumCol [1, 1]),
                 (''age_group_37-45'', NumCol [0, 0]),
                 (''age_group_46-53'', NumCol [0, 0]),
                 (''age_group_54-61'', NumCol [0, 0]),
                 (''tenure_group_6-11'', NumCol [0, 0]),
                 (''tenure_group_12-17'', NumCol [0, 0]),
                 (''tenure_group_18-23'', NumCol [0, 0]),
                 (''tenure_group_24-29'', NumCol [0, 0]),
                 (''dept_name_Sales'', NumCol [0, 1])]\<rparr>"

text \<open>The same frame aligned with the example columns.\<close>

definition example_aligned :: frame where
  "example_aligned =
     \<lparr>nrows = 2,
      columns = [(''no_of_projects'', NumCol [3, 3]),
                 (''age_group_29-36'', NumCol [1, 1]),
                 (''dept_name_Sales'', NumCol [0, 1]),
                 (''title_Manager'', NumCol [0, 0])]\<rparr>"

text \<open>A file that lacks the column of salaries.\<close>

definition example_incomplete :: frame where
  "example_incomplete =
     \<lparr>nrows = 1,
      columns = [(''age'', NumCol [30]),
                 (''tenure'', NumCol [5]),
                 (''dept_name'', ObjCol [Some ''Sales'']),
                 (''title'', ObjCol [Some ''Analyst'']),
                 (''sex'', ObjCol [Some ''F'']),
                 (''Last_performance_rating'', ObjCol [Some ''B'']),
                 (''no_of_projects'', NumCol [3])]\<rparr>"

text \<open>A classifier that predicts class 0 for every row, with probability 1/5 of class 1.\<close>

definition stay_classifier :: classifier where
  "stay_classifier =
     \<lparr>predict = map (\<lambda>r. 0), predict_proba = map (\<lambda>r. (4 / 5, 1 / 5))\<rparr>"

text \<open>A classifier that predicts class 1 for every row, with probability 9/10 of class 1.\<close>

definition leave_classifier :: classifier where
  "leave_classifier =
     \<lparr>predict = map (\<lambda>r. 1), predict_proba = map (\<lambda>r. (1 / 10, 9 / 10))\<rparr>"

section \<open>Frames: labels, lookup and assignment\<close>

lemma filter_fst_distinct:
  "distinct (map fst xs) \<Longrightarrow>
     filter (\<lambda>p. fst p = c) xs = (case map_of xs c of None \<Rightarrow> [] | Some v \<Rightarrow> [(c, v)])"
proof (induction xs)
  case Nil
  then show ?case by simp
next
  case (Cons p xs)
  obtain n v where p: "p = (n, v)" by (cases p)
  show ?case
  proof (cases "n = c")
    case True
    with Cons.prems p have "c \<notin> fst ` set xs" by auto
    then have "filter (\<lambda>p. fst p = c) xs = []" by (auto simp: filter_empty_conv)
    with True p show ?thesis by simp
  next
    case False
    with Cons p show ?thesis by simp
  qed
qed

lemma cols_named_distinct:
  "distinct (column_names df) \<Longrightarrow>
     cols_named df c = (case map_of (columns df) c of None \<Rightarrow> [] | Some v \<Rightarrow> [(c, v)])"
  unfolding cols_named_def column_names_def by (rule filter_fst_distinct)

lemma map_of_none_names: "map_of (columns df) c = None \<longleftrightarrow> c \<notin> set (column_names df)"
  by (simp add: column_names_def map_of_eq_None_iff)

lemma nrows_setitem: "nrows (setitem df c v) = nrows df"
  by (simp add: setitem_def)

lemma column_names_setitem:
  "column_names (setitem df c v) =
     (if c \<in> set (column_names df) then column_names df else column_names df @ [c])"
  by (auto simp: setitem_def column_names_def intro: map_idI)

lemma cols_named_setitem_other:
  "c' \<noteq> c \<Longrightarrow> cols_named (setitem df c v) c' = cols_named df c'"
proof -
  have "filter (\<lambda>p. fst p = c') (map (\<lambda>p. if fst p = c then (fst p, v) else p) xs)
          = filter (\<lambda>p. fst p = c') xs" if "c' \<noteq> c" for xs :: "(string \<times> column) list"
    using that by (induction xs) auto
  then show "c' \<noteq> c \<Longrightarrow> cols_named (setitem df c v) c' = cols_named df c'"
    by (simp add: setitem_def cols_named_def)
qed

lemma get_series_setitem_other:
  "c' \<noteq> c \<Longrightarrow> get_series (setitem df c v) c' = get_series df c'"
  by (simp add: get_series_def cols_named_setitem_other)

lemma map_of_setitem:
  "map_of (columns (setitem df c v)) = (map_of (columns df))(c \<mapsto> v)"
proof (cases "c \<in> set (column_names df)")
  case False
  then have "map_of (columns df) c = None" by (simp add: map_of_none_names)
  then show ?thesis using False
    by (auto simp: setitem_def map_add_def fun_eq_iff split: option.splits)
next
  case True
  have "map_of (map (\<lambda>p. if fst p = c then (fst p, v) else p) xs) = (map_of xs)(c \<mapsto> v)"
    if "c \<in> fst ` set xs" for xs :: "(string \<times> column) list"
    using that
  proof (induction xs)
    case Nil
    then show ?case by simp
  next
    case (Cons p xs)
    show ?case
    proof (cases "c \<in> fst ` set xs")
      case True
      with Cons.IH show ?thesis by (auto simp: fun_eq_iff)
    next
      case False
      then have "map (\<lambda>p. if fst p = c then (fst p, v) else p) xs = xs"
        by (intro map_idI) auto
      moreover from False Cons.prems have "fst p = c" by auto
      ultimately show ?thesis by (auto simp: fun_eq_iff)
    qed
  qed
  with True show ?thesis by (simp add: setitem_def column_names_def)
qed

lemma wf_frame_setitem:
  assumes "wf_frame df" and "wf_column (nrows df) v"
  shows "wf_frame (setitem df c v)"
proof -
  from assms(1) have "distinct (column_names (setitem df c v))"
    by (simp add: wf_frame_def column_names_setitem)
  moreover from assms have "list_all (\<lambda>p. wf_column (nrows df) (snd p)) (columns (setitem df c v))"
    by (auto simp: wf_frame_def setitem_def list_all_iff)
  ultimately show ?thesis by (simp add: wf_frame_def nrows_setitem)
qed

section \<open>Selection and encoding\<close>

lemma select_ok:
  assumes "distinct (column_names df)" and "set cs \<subseteq> set (column_names df)"
  shows "select df cs = Inr (df\<lparr>columns := map (\<lambda>c. (c, the (map_of (columns df) c))) cs\<rparr>)"
proof -
  from assms(2) have "filter (\<lambda>c. c \<notin> set (column_names df)) cs = []"
    by (auto simp: filter_empty_conv)
  moreover have "concat (map (cols_named df) cs) = map (\<lambda>c. (c, the (map_of (columns df) c))) cs"
    using assms(2)
  proof (induction cs)
    case Nil
    then show ?case by simp
  next
    case (Cons c cs)
    then have "c \<in> set (column_names df)" by simp
    then obtain v where "map_of (columns df) c = Some v"
      using map_of_none_names [of df c] by (cases "map_of (columns df) c") auto
    then have "cols_named df c = [(c, the (map_of (columns df) c))]"
      by (simp add: cols_named_distinct [OF assms(1)])
    with Cons show ?case by simp
  qed
  ultimately show ?thesis by (simp add: select_def)
qed

lemma same_prefix_clash:
  assumes "n @ ''_'' @ l = m @ ''_'' @ l'" and "n \<noteq> m"
  shows "prefix (n @ ''_'') m \<or> prefix (m @ ''_'') n"
proof -
  have "prefix (n @ ''_'') (n @ ''_'' @ l)" by simp
  moreover have "prefix (m @ ''_'') (n @ ''_'' @ l)" using assms(1) by simp
  ultimately have "prefix (n @ ''_'') (m @ ''_'') \<or> prefix (m @ ''_'') (n @ ''_'')"
    by (rule prefix_same_cases)
  with assms(2) show ?thesis by auto
qed

lemma distinct_levels: "wf_column k c \<Longrightarrow> distinct (levels c)"
  by (cases c) (simp_all add: observed_def)

lemma names_dummies_1d: "map fst (dummies_1d n c) = map (\<lambda>l. n @ ''_'' @ l) (drop 1 (levels c))"
  by (simp add: dummies_1d_def o_def)

lemma distinct_names_dummies_1d: "distinct (levels c) \<Longrightarrow> distinct (map fst (dummies_1d n c))"
  by (simp add: names_dummies_1d distinct_map inj_on_def)

lemma dummy_names_Cons:
  "dummy_names (p # cs) = (if is_encoded (snd p) then map fst (dummies_1d (fst p) (snd p)) else []) @ dummy_names cs"
  by (simp add: dummy_names_def)

lemma in_dummy_names:
  "d \<in> set (dummy_names cs) \<Longrightarrow> \<exists>p\<in>set cs. \<exists>l. is_encoded (snd p) \<and> d = fst p @ ''_'' @ l"
proof (induction cs)
  case Nil
  then show ?case by (simp add: dummy_names_def)
next
  case (Cons p cs)
  then show ?case by (auto simp: dummy_names_Cons names_dummies_1d split: if_splits)
qed

lemma clash_freeD:
  "dummy_clash_free ns \<Longrightarrow> n \<in> set ns \<Longrightarrow> m \<in> set ns \<Longrightarrow> n \<noteq> m \<Longrightarrow> \<not> prefix (n @ ''_'') m"
  by (auto simp: dummy_clash_free_def list_all_iff)

lemma clash_free_Cons: "dummy_clash_free (n # ns) \<Longrightarrow> dummy_clash_free ns"
  by (auto simp: dummy_clash_free_def list_all_iff)

lemma distinct_dummy_names:
  assumes "distinct (map fst cs)" and "\<forall>p\<in>set cs. distinct (levels (snd p))"
    and "dummy_clash_free (map fst cs)"
  shows "distinct (dummy_names cs)"
  using assms
proof (induction cs)
  case Nil
  then show ?case by (simp add: dummy_names_def)
next
  case (Cons p cs)
  have tl: "distinct (dummy_names cs)"
    using Cons by (auto dest: clash_free_Cons)
  have hd: "distinct (map fst (dummies_1d (fst p) (snd p)))"
    using Cons.prems(2) by (simp add: distinct_names_dummies_1d)
  have disj: "set (map fst (dummies_1d (fst p) (snd p))) \<inter> set (dummy_names cs) = {}"
  proof (rule ccontr)
    assume "\<not> ?thesis"
    then obtain d where d1: "d \<in> set (map fst (dummies_1d (fst p) (snd p)))"
      and d2: "d \<in> set (dummy_names cs)" by auto
    from d1 obtain l where l: "d = fst p @ ''_'' @ l" by (auto simp: names_dummies_1d)
    from d2 obtain q l' where q: "q \<in> set cs" "d = fst q @ ''_'' @ l'"
      using in_dummy_names by blast
    from q(1) Cons.prems(1) have ne: "fst p \<noteq> fst q" by auto
    from l q(2) have "fst p @ ''_'' @ l = fst q @ ''_'' @ l'" by simp
    from same_prefix_clash [OF this ne]
    have "prefix (fst p @ ''_'') (fst q) \<or> prefix (fst q @ ''_'') (fst p)" .
    moreover have "\<not> prefix (fst p @ ''_'') (fst q)"
      using clash_freeD [OF Cons.prems(3), of "fst p" "fst q"] q(1) ne by auto
    moreover have "\<not> prefix (fst q @ ''_'') (fst p)"
      using clash_freeD [OF Cons.prems(3), of "fst q" "fst p"] q(1) ne by auto
    ultimately show False by blast
  qed
  show ?case using tl hd disj by (auto simp: dummy_names_Cons)
qed

lemma columns_get_dummies:
  "column_names (get_dummies df) =
     map fst (filter (\<lambda>p. \<not> is_encoded (snd p)) (columns df)) @ dummy_names (columns df)"
  by (simp add: get_dummies_def column_names_def dummy_names_def)

lemma distinct_get_dummies:
  assumes "wf_frame df" and "dummy_clash_free (column_names df)"
  shows "distinct (column_names (get_dummies df))"
proof -
  let ?cs = "columns df"
  from assms(1) have dn: "distinct (map fst ?cs)" by (simp add: wf_frame_def column_names_def)
  from assms(1) have lv: "\<forall>p\<in>set ?cs. distinct (levels (snd p))"
    by (auto simp: wf_frame_def list_all_iff intro: distinct_levels)
  have a: "distinct (map fst (filter (\<lambda>p. \<not> is_encoded (snd p)) ?cs))"
    using dn by (rule distinct_map_filter)
  have b: "distinct (dummy_names ?cs)"
    using dn lv assms(2) by (simp add: distinct_dummy_names column_names_def)
  have c: "set (map fst (filter (\<lambda>p. \<not> is_encoded (snd p)) ?cs)) \<inter> set (dummy_names ?cs) = {}"
  proof (rule ccontr)
    assume "\<not> ?thesis"
    then obtain d where d1: "d \<in> set (map fst (filter (\<lambda>p. \<not> is_encoded (snd p)) ?cs))"
      and d2: "d \<in> set (dummy_names ?cs)" by auto
    from d1 obtain q where q: "q \<in> set ?cs" "\<not> is_encoded (snd q)" "d = fst q" by auto
    from d2 obtain p l where p: "p \<in> set ?cs" "is_encoded (snd p)" "d = fst p @ ''_'' @ l"
      using in_dummy_names by blast
    from p(2) q(2) have "p \<noteq> q" by auto
    with dn p(1) q(1) have ne: "fst p \<noteq> fst q"
      by (metis distinct_map inj_onD)
    have "prefix (fst p @ ''_'') (fst q)" using p(3) q(3) by (metis append.assoc prefixI)
    moreover have "\<not> prefix (fst p @ ''_'') (fst q)"
      using clash_freeD [OF assms(2), of "fst p" "fst q"] p(1) q(1) ne
      by (auto simp: column_names_def)
    ultimately show False by blast
  qed
  from a b c show ?thesis by (simp add: columns_get_dummies)
qed

lemma clash_free_features: "dummy_clash_free features"
  by (simp add: dummy_clash_free_def features_def)

section \<open>Alignment and the matrix\<close>

lemma nrows_get_dummies: "nrows (get_dummies df) = nrows df"
  by (simp add: get_dummies_def)

lemma is_num_dummies_1d: "p \<in> set (dummies_1d n c) \<Longrightarrow> is_num (snd p)"
  by (auto simp: dummies_1d_def)

lemma all_num_get_dummies: "list_all (\<lambda>p. is_num (snd p)) (columns (get_dummies df))"
proof -
  have "is_num c" if "\<not> is_encoded c" for c using that by (cases c) simp_all
  then show ?thesis
    by (auto simp: get_dummies_def list_all_iff dest: is_num_dummies_1d split: if_splits)
qed

lemma wf_dummies_1d:
  "wf_column k c \<Longrightarrow> is_encoded c \<Longrightarrow> p \<in> set (dummies_1d n c) \<Longrightarrow> wf_column k (snd p)"
  by (cases c) (auto simp: dummies_1d_def)

lemma wf_frame_get_dummies:
  assumes "wf_frame df" and "dummy_clash_free (column_names df)"
  shows "wf_frame (get_dummies df)"
proof -
  have "wf_column (nrows df) (snd p)" if "p \<in> set (columns (get_dummies df))" for p
    using that assms(1)
    by (auto simp: get_dummies_def wf_frame_def list_all_iff dest: wf_dummies_1d split: if_splits)
  then show ?thesis
    using distinct_get_dummies [OF assms]
    by (simp add: wf_frame_def nrows_get_dummies list_all_iff)
qed

lemma zero_column_setitem: "zero_column (setitem df c v) = zero_column df"
  by (simp add: zero_column_def nrows_setitem)

lemma add_missing_columns:
  assumes "distinct ms" and "set ms \<inter> set (column_names e) = {}"
  shows "add_missing e ms = e\<lparr>columns := columns e @ map (\<lambda>c. (c, zero_column e)) ms\<rparr>"
  using assms
proof (induction ms arbitrary: e)
  case Nil
  then show ?case by (simp add: add_missing_def)
next
  case (Cons c ms)
  let ?e = "setitem e c (zero_column e)"
  from Cons.prems have notin: "c \<notin> set (column_names e)" by simp
  then have e': "?e = e\<lparr>columns := columns e @ [(c, zero_column e)]\<rparr>"
    by (simp add: setitem_def)
  from Cons.prems notin have "set ms \<inter> set (column_names ?e) = {}"
    by (auto simp: column_names_setitem)
  with Cons.IH [of ?e] Cons.prems(1)
  have "add_missing ?e ms = ?e\<lparr>columns := columns ?e @ map (\<lambda>c. (c, zero_column ?e)) ms\<rparr>"
    by simp
  moreover have "add_missing e (c # ms) = add_missing ?e ms" by (simp add: add_missing_def)
  ultimately show ?case by (simp add: zero_column_setitem) (simp add: e')
qed

lemma map_of_const_keys:
  "map_of (map (\<lambda>c. (c, f c)) ms) c = (if c \<in> set ms then Some (f c) else None)"
  by (induction ms) auto

lemma align_columns_eq:
  assumes "distinct (column_names e)"
  shows "align_columns e mc =
           Inr (e\<lparr>columns := map (\<lambda>c. (c, case map_of (columns e) c of
                                              None \<Rightarrow> zero_column e | Some v \<Rightarrow> v)) mc\<rparr>)"
proof -
  let ?ms = "missing_cols e mc"
  let ?zs = "map (\<lambda>c. (c, zero_column e)) ?ms"
  let ?e = "e\<lparr>columns := columns e @ ?zs\<rparr>"
  have dms: "distinct ?ms" and disj: "set ?ms \<inter> set (column_names e) = {}"
    by (auto simp: missing_cols_def)
  then have am: "add_missing e ?ms = ?e" by (rule add_missing_columns)
  have names: "column_names ?e = column_names e @ ?ms"
    by (simp add: column_names_def o_def)
  have d: "distinct (column_names ?e)" using assms dms disj by (auto simp: names)
  have "set mc \<subseteq> set (column_names e) \<union> set ?ms" by (auto simp: missing_cols_def)
  then have sub: "set mc \<subseteq> set (column_names ?e)" unfolding names by simp
  have look: "the (map_of (columns ?e) c) =
                (case map_of (columns e) c of None \<Rightarrow> zero_column e | Some v \<Rightarrow> v)"
    if "c \<in> set mc" for c
  proof (cases "map_of (columns e) c")
    case None
    then have "c \<in> set ?ms" using that by (simp add: missing_cols_def map_of_none_names)
    with None show ?thesis by (simp add: map_add_def map_of_const_keys)
  next
    case (Some v)
    then show ?thesis by (simp add: map_add_def)
  qed
  have "select ?e mc = Inr (?e\<lparr>columns := map (\<lambda>c. (c, the (map_of (columns ?e) c))) mc\<rparr>)"
    using d sub by (rule select_ok)
  moreover have "map (\<lambda>c. (c, the (map_of (columns ?e) c))) mc =
                  map (\<lambda>c. (c, case map_of (columns e) c of None \<Rightarrow> zero_column e | Some v \<Rightarrow> v)) mc"
    using look by (intro map_cong) auto
  ultimately show ?thesis by (simp add: align_columns_def am)
qed

text \<open>
  The source takes the missing labels out of a Python set, in an order that is not fixed.
  The order does not matter: each label is assigned once, and the selection that follows puts
  the columns in the order of the model columns.
\<close>

lemma alignment_order_irrelevant:
  assumes "distinct (column_names e)" and "distinct ms"
    and "set ms = set model_columns - set (column_names e)"
  shows "select (add_missing e ms) model_columns = align_columns e model_columns"
proof -
  let ?zs = "map (\<lambda>c. (c, zero_column e)) ms"
  let ?e = "e\<lparr>columns := columns e @ ?zs\<rparr>"
  from assms(3) have disj: "set ms \<inter> set (column_names e) = {}" by auto
  with assms(2) have am: "add_missing e ms = ?e" by (rule add_missing_columns)
  have names: "column_names ?e = column_names e @ ms"
    by (simp add: column_names_def o_def)
  have d: "distinct (column_names ?e)" using assms(1,2) disj by (auto simp: names)
  from assms(3) have "set model_columns \<subseteq> set (column_names e) \<union> set ms" by auto
  then have sub: "set model_columns \<subseteq> set (column_names ?e)" unfolding names by simp
  have look: "the (map_of (columns ?e) c) =
                (case map_of (columns e) c of None \<Rightarrow> zero_column e | Some v \<Rightarrow> v)"
    if "c \<in> set model_columns" for c
  proof (cases "map_of (columns e) c")
    case None
    then have "c \<in> set ms" using that assms(3) by (simp add: map_of_none_names)
    with None show ?thesis by (simp add: map_add_def map_of_const_keys)
  next
    case (Some v)
    then show ?thesis by (simp add: map_add_def)
  qed
  have "select ?e model_columns
          = Inr (?e\<lparr>columns := map (\<lambda>c. (c, the (map_of (columns ?e) c))) model_columns\<rparr>)"
    using d sub by (rule select_ok)
  moreover have "map (\<lambda>c. (c, the (map_of (columns ?e) c))) model_columns =
                  map (\<lambda>c. (c, case map_of (columns e) c of
                                   None \<Rightarrow> zero_column e | Some v \<Rightarrow> v)) model_columns"
    using look by (intro map_cong) auto
  ultimately show ?thesis by (simp add: am align_columns_eq [OF assms(1)])
qed

lemma to_matrix_shape:
  assumes "list_all (\<lambda>p. is_num (snd p)) (columns df)"
  shows "\<exists>m. to_matrix df = Inr m \<and> length m = nrows df
             \<and> (\<forall>r\<in>set m. length r = length (columns df))"
  using assms by (simp add: to_matrix_def)

text \<open>The example frames are what the pipeline computes on the example file.\<close>

lemma example_encoded_eq: "encode_features (with_bins example_batch) = Inr example_encoded"
  by code_simp

lemma example_aligned_eq: "align_columns example_encoded example_columns = Inr example_aligned"
  by code_simp

section \<open>Binning\<close>

lemma cut1_age:
  "cut1 age_bins age_labels x =
     (if x < 21 then None else if x < 29 then Some ''21-28'' else if x < 37 then Some ''29-36''
      else if x < 46 then Some ''37-45'' else if x < 54 then Some ''46-53''
      else if x < 62 then Some ''54-61'' else None)"
  by (simp add: cut1_def searchsorted_right_def age_bins_def age_labels_def)

lemma cut1_tenure:
  "cut1 tenure_bins tenure_labels x =
     (if x < 0 then None else if x < 6 then Some ''0-5'' else if x < 12 then Some ''6-11''
      else if x < 18 then Some ''12-17'' else if x < 24 then Some ''18-23''
      else if x < 30 then Some ''24-29'' else None)"
  by (simp add: cut1_def searchsorted_right_def tenure_bins_def tenure_labels_def)

lemma cut1_salary:
  "cut1 salary_bins salary_labels x =
     (if x < 40000 then None else if x < 60000 then Some ''low''
      else if x < 80000 then Some ''medium'' else if x < 100000 then Some ''high''
      else if x < 130000 then Some ''very_high'' else None)"
  by (simp add: cut1_def searchsorted_right_def salary_bins_def salary_labels_def)

section \<open>Column alignment\<close>

text \<open>
  C3. Alignment reindexes an encoded frame (unique labels, as encoding produces them) to the
  model columns in their order: the labels of the aligned frame are the model columns, a
  model column that the encoded frame has is that column, a model column that it lacks is a
  column of zeros, and so no other column of the encoded frame is left.
\<close>

theorem align_columns_reindex:
  assumes "distinct (column_names encoded_df)"
  shows "\<exists>aligned. align_columns encoded_df model_columns = Inr aligned
           \<and> column_names aligned = model_columns
           \<and> nrows aligned = nrows encoded_df
           \<and> (\<forall>i<length model_columns.
                 (model_columns ! i \<in> set (column_names encoded_df)
                    \<longrightarrow> [columns aligned ! i] = cols_named encoded_df (model_columns ! i))
               \<and> (model_columns ! i \<notin> set (column_names encoded_df)
                    \<longrightarrow> columns aligned ! i
                        = (model_columns ! i, NumCol (replicate (nrows encoded_df) 0))))"
proof -
  let ?look = "\<lambda>c. case map_of (columns encoded_df) c of
                      None \<Rightarrow> zero_column encoded_df | Some v \<Rightarrow> v"
  let ?a = "encoded_df\<lparr>columns := map (\<lambda>c. (c, ?look c)) model_columns\<rparr>"
  have eq: "align_columns encoded_df model_columns = Inr ?a"
    using assms by (rule align_columns_eq)
  have names: "column_names ?a = model_columns"
    by (simp add: column_names_def o_def)
  have cols: "(c \<in> set (column_names encoded_df) \<longrightarrow> [(c, ?look c)] = cols_named encoded_df c)
            \<and> (c \<notin> set (column_names encoded_df)
                 \<longrightarrow> (c, ?look c) = (c, NumCol (replicate (nrows encoded_df) 0)))" for c
  proof (cases "map_of (columns encoded_df) c")
    case None
    then show ?thesis
      using map_of_none_names [of encoded_df c] by (simp add: zero_column_def)
  next
    case (Some v)
    then show ?thesis
      using map_of_none_names [of encoded_df c] by (simp add: cols_named_distinct [OF assms])
  qed
  show ?thesis
    unfolding eq using names cols by simp
qed

theorem align_columns_reindex_witness:
  "distinct (column_names example_encoded)
   \<and> (\<exists>aligned. align_columns example_encoded example_columns = Inr aligned
         \<and> column_names aligned = example_columns
         \<and> nrows aligned = nrows example_encoded
         \<and> [columns aligned ! 0] = cols_named example_encoded ''no_of_projects''
         \<and> columns aligned ! 3 = (''title_Manager'', NumCol [0, 0]))"
proof -
  have h: "distinct (column_names example_encoded)"
    by (simp add: example_encoded_def column_names_def)
  have n: "''no_of_projects'' \<in> set (column_names example_encoded)"
    by (simp add: example_encoded_def column_names_def)
  from align_columns_reindex [OF h, of example_columns]
  obtain aligned where a: "align_columns example_encoded example_columns = Inr aligned"
    "column_names aligned = example_columns" "nrows aligned = nrows example_encoded"
    and cols: "\<forall>i<length example_columns.
                 (example_columns ! i \<in> set (column_names example_encoded)
                    \<longrightarrow> [columns aligned ! i] = cols_named example_encoded (example_columns ! i))
               \<and> (example_columns ! i \<notin> set (column_names example_encoded)
                    \<longrightarrow> columns aligned ! i
                        = (example_columns ! i, NumCol (replicate (nrows example_encoded) 0)))"
    by blast
  from cols [rule_format, of 0] have c0: "[columns aligned ! 0] = cols_named example_encoded ''no_of_projects''"
    by (simp add: example_columns_def example_encoded_def column_names_def)
  from cols [rule_format, of 3] have c1: "columns aligned ! 3 = (''title_Manager'', NumCol [0, 0])"
    by (simp add: example_columns_def example_encoded_def column_names_def numeral_3_eq_3 numeral_2_eq_2)
  from h a c0 c1 show ?thesis by blast
qed

text \<open>
  C6. Alignment is idempotent: a frame whose labels are the model columns in their order (the
  model columns being a set, without repetition) is returned as it is.
\<close>

theorem align_columns_idempotent:
  assumes "column_names aligned = model_columns" and "distinct model_columns"
  shows "align_columns aligned model_columns = Inr aligned"
proof -
  let ?look = "\<lambda>c. case map_of (columns aligned) c of
                      None \<Rightarrow> zero_column aligned | Some v \<Rightarrow> v"
  from assms have d: "distinct (map fst (columns aligned))" by (simp add: column_names_def)
  have "(fst p, ?look (fst p)) = p" if "p \<in> set (columns aligned)" for p
  proof -
    obtain n v where p: "p = (n, v)" by (cases p)
    with that d have "map_of (columns aligned) n = Some v" by simp
    with p show ?thesis by simp
  qed
  then have "map (\<lambda>p. (fst p, ?look (fst p))) (columns aligned) = columns aligned"
    by (intro map_idI)
  then have "map (\<lambda>c. (c, ?look c)) (map fst (columns aligned)) = columns aligned"
    by (simp add: o_def)
  then have "map (\<lambda>c. (c, ?look c)) model_columns = columns aligned"
    using assms(1) unfolding column_names_def by simp
  moreover have "align_columns aligned model_columns
                   = Inr (aligned\<lparr>columns := map (\<lambda>c. (c, ?look c)) model_columns\<rparr>)"
    using d by (intro align_columns_eq) (simp add: column_names_def)
  ultimately show ?thesis by simp
qed

theorem align_columns_idempotent_witness:
  "column_names example_aligned = example_columns \<and> distinct example_columns
   \<and> align_columns example_aligned example_columns = Inr example_aligned"
proof -
  have h1: "column_names example_aligned = example_columns"
    by (simp add: example_aligned_def example_columns_def column_names_def)
  have h2: "distinct example_columns" by (simp add: example_columns_def)
  from h1 h2 align_columns_idempotent [OF h1 h2] show ?thesis by simp
qed

section \<open>The upload branch\<close>

text \<open>
  C8. When one of the eight required columns is absent from the uploaded frame, the branch
  shows the missing-column error; the frame is as it was read: no step of the preprocessing
  has run on it, and there is no prediction.
\<close>

theorem missing_column_rejected:
  assumes "\<exists>c\<in>set required_cols. c \<notin> set (column_names df)"
  shows "main_app_upload df model scaler model_columns
           = (df, Inl (MissingRequiredColumns required_cols))"
  using assms by (auto simp: main_app_upload_def list_all_iff)

theorem missing_column_rejected_witness:
  "(\<exists>c\<in>set required_cols. c \<notin> set (column_names example_incomplete))
   \<and> main_app_upload example_incomplete stay_classifier example_scaler example_columns
       = (example_incomplete, Inl (MissingRequiredColumns required_cols))"
proof -
  have h: "\<exists>c\<in>set required_cols. c \<notin> set (column_names example_incomplete)"
    by (simp add: required_cols_def example_incomplete_def column_names_def)
  from h missing_column_rejected [OF h] show ?thesis by simp
qed

section \<open>The pipeline on a valid batch\<close>

lemma get_series_numeric:
  "is_numeric_col df c \<Longrightarrow> get_series df c = Inr (NumCol (numeric_values df c))"
  by (auto simp: is_numeric_col_def numeric_values_def split: sum.splits column.splits)

lemma get_series_mem: "get_series df c = Inr col \<Longrightarrow> (c, col) \<in> set (columns df)"
proof -
  assume g: "get_series df c = Inr col"
  then obtain p where p: "cols_named df c = [p]" "snd p = col"
    by (auto simp: get_series_def split: list.splits)
  then have "p \<in> set (filter (\<lambda>p. fst p = c) (columns df))" by (simp add: cols_named_def)
  then have "p \<in> set (columns df)" "fst p = c" by auto
  with p(2) show ?thesis by (cases p) auto
qed

lemma numeric_values_length:
  assumes "wf_frame df" and "is_numeric_col df c"
  shows "length (numeric_values df c) = nrows df"
proof -
  from get_series_mem [OF get_series_numeric [OF assms(2)]]
  have "(c, NumCol (numeric_values df c)) \<in> set (columns df)" .
  with assms(1) have "wf_column (nrows df) (NumCol (numeric_values df c))"
    by (force simp: wf_frame_def list_all_iff)
  then show ?thesis by simp
qed

lemma is_numeric_col_setitem:
  "c' \<noteq> c \<Longrightarrow> is_numeric_col (setitem df c v) c' = is_numeric_col df c'"
  by (simp add: is_numeric_col_def get_series_setitem_other)

lemma numeric_values_setitem:
  "c' \<noteq> c \<Longrightarrow> numeric_values (setitem df c v) c' = numeric_values df c'"
  by (simp add: numeric_values_def get_series_setitem_other)

lemma cut_column_numeric:
  assumes "is_numeric_col df c" and "Suc (length labels) = length bins"
  shows "cut_column df c bins labels
           = Inr (CatCol labels (map (cut1 bins labels) (numeric_values df c)))"
  using assms by (simp add: cut_column_def get_series_numeric)

lemma bin_features_ok:
  assumes "valid_input df"
  shows "bin_features df = (with_bins df, Inr ())"
proof -
  from assms have num: "is_numeric_col df ''age''" "is_numeric_col df ''tenure''"
    "is_numeric_col df ''salary''"
    by (simp_all add: valid_input_def)
  let ?ag = "CatCol age_labels (map (cut1 age_bins age_labels) (numeric_values df ''age''))"
  let ?tg = "CatCol tenure_labels (map (cut1 tenure_bins tenure_labels) (numeric_values df ''tenure''))"
  let ?sb = "CatCol salary_labels (map (cut1 salary_bins salary_labels) (numeric_values df ''salary''))"
  let ?df1 = "setitem df ''age_group'' ?ag"
  let ?df2 = "setitem ?df1 ''tenure_group'' ?tg"
  have c1: "cut_column df ''age'' age_bins age_labels = Inr ?ag"
    using num(1) by (rule cut_column_numeric) (simp add: age_bins_def age_labels_def)
  have "is_numeric_col ?df1 ''tenure''" using num(2) by (simp add: is_numeric_col_setitem)
  then have "cut_column ?df1 ''tenure'' tenure_bins tenure_labels
               = Inr (CatCol tenure_labels (map (cut1 tenure_bins tenure_labels) (numeric_values ?df1 ''tenure'')))"
    by (rule cut_column_numeric) (simp add: tenure_bins_def tenure_labels_def)
  then have c2: "cut_column ?df1 ''tenure'' tenure_bins tenure_labels = Inr ?tg"
    by (simp add: numeric_values_setitem)
  have "is_numeric_col ?df2 ''salary''" using num(3) by (simp add: is_numeric_col_setitem)
  then have "cut_column ?df2 ''salary'' salary_bins salary_labels
               = Inr (CatCol salary_labels (map (cut1 salary_bins salary_labels) (numeric_values ?df2 ''salary'')))"
    by (rule cut_column_numeric) (simp add: salary_bins_def salary_labels_def)
  then have c3: "cut_column ?df2 ''salary'' salary_bins salary_labels = Inr ?sb"
    by (simp add: numeric_values_setitem)
  show ?thesis
    unfolding bin_features_def with_bins_def c1 by (simp add: c2 c3 Let_def)
qed

lemma nrows_with_bins: "nrows (with_bins df) = nrows df"
  by (simp add: with_bins_def nrows_setitem)

lemma wf_with_bins:
  assumes "valid_input df"
  shows "wf_frame (with_bins df)"
proof -
  from assms have wf: "wf_frame df" and num: "is_numeric_col df ''age''"
    "is_numeric_col df ''tenure''" "is_numeric_col df ''salary''"
    by (simp_all add: valid_input_def)
  let ?ag = "CatCol age_labels (map (cut1 age_bins age_labels) (numeric_values df ''age''))"
  let ?tg = "CatCol tenure_labels (map (cut1 tenure_bins tenure_labels) (numeric_values df ''tenure''))"
  let ?sb = "CatCol salary_labels (map (cut1 salary_bins salary_labels) (numeric_values df ''salary''))"
  have "wf_column (nrows df) ?ag"
    using numeric_values_length [OF wf num(1)] by (simp add: age_labels_def)
  then have 1: "wf_frame (setitem df ''age_group'' ?ag)" using wf by (simp add: wf_frame_setitem)
  have "wf_column (nrows df) ?tg"
    using numeric_values_length [OF wf num(2)] by (simp add: tenure_labels_def)
  then have 2: "wf_frame (setitem (setitem df ''age_group'' ?ag) ''tenure_group'' ?tg)"
    using 1 by (simp add: wf_frame_setitem nrows_setitem)
  have "wf_column (nrows df) ?sb"
    using numeric_values_length [OF wf num(3)] by (simp add: salary_labels_def)
  then show ?thesis
    unfolding with_bins_def using 2 by (simp add: wf_frame_setitem nrows_setitem)
qed

lemma set_column_names_setitem:
  "set (column_names (setitem df c v)) = insert c (set (column_names df))"
  by (auto simp: column_names_setitem)

lemma features_with_bins:
  assumes "valid_input df"
  shows "set features \<subseteq> set (column_names (with_bins df))"
proof -
  from assms have "set required_cols \<subseteq> set (column_names df)"
    by (auto simp: valid_input_def list_all_iff)
  then show ?thesis
    by (auto simp: with_bins_def set_column_names_setitem features_def required_cols_def)
qed

lemma encode_features_ok:
  assumes "valid_input df"
  shows "\<exists>e. encode_features (with_bins df) = Inr e \<and> wf_frame e \<and> nrows e = nrows df
            \<and> list_all (\<lambda>p. is_num (snd p)) (columns e)"
proof -
  let ?b = "with_bins df"
  let ?p = "?b\<lparr>columns := map (\<lambda>c. (c, the (map_of (columns ?b) c))) features\<rparr>"
  have wfb: "wf_frame ?b" using assms by (rule wf_with_bins)
  then have d: "distinct (column_names ?b)" by (simp add: wf_frame_def)
  have sub: "set features \<subseteq> set (column_names ?b)" using assms by (rule features_with_bins)
  have sel: "select ?b features = Inr ?p" using d sub by (rule select_ok)
  have names: "column_names ?p = features" by (simp add: column_names_def o_def)
  have "wf_column (nrows ?b) (the (map_of (columns ?b) c))" if "c \<in> set features" for c
  proof -
    from that sub have "c \<in> set (column_names ?b)" by auto
    then obtain v where v: "map_of (columns ?b) c = Some v"
      using map_of_none_names [of ?b c] by (cases "map_of (columns ?b) c") auto
    then have "(c, v) \<in> set (columns ?b)" by (rule map_of_SomeD)
    with wfb have "wf_column (nrows ?b) v" by (force simp: wf_frame_def list_all_iff)
    with v show ?thesis by simp
  qed
  then have "list_all (\<lambda>p. wf_column (nrows ?p) (snd p)) (columns ?p)"
    by (simp add: list_all_iff)
  moreover have "distinct features" by (simp add: features_def)
  ultimately have wfp: "wf_frame ?p"
    unfolding wf_frame_def names by simp
  have cf: "dummy_clash_free (column_names ?p)" by (simp add: names clash_free_features)
  have "encode_features ?b = Inr (get_dummies ?p)" by (simp add: encode_features_def sel)
  moreover have "wf_frame (get_dummies ?p)" using wfp cf by (rule wf_frame_get_dummies)
  moreover have "nrows (get_dummies ?p) = nrows df"
    by (simp add: nrows_get_dummies nrows_with_bins)
  moreover have "list_all (\<lambda>p. is_num (snd p)) (columns (get_dummies ?p))"
    by (rule all_num_get_dummies)
  ultimately show ?thesis by blast
qed

lemma aligned_matrix_ok:
  assumes "valid_input df"
  shows "\<exists>m. aligned_matrix (with_bins df) model_columns = Inr m \<and> length m = nrows df
            \<and> (\<forall>r\<in>set m. length r = length model_columns)"
proof -
  from encode_features_ok [OF assms] obtain e where
    e: "encode_features (with_bins df) = Inr e" "wf_frame e" "nrows e = nrows df"
       "list_all (\<lambda>p. is_num (snd p)) (columns e)"
    by blast
  let ?look = "\<lambda>c. case map_of (columns e) c of None \<Rightarrow> zero_column e | Some v \<Rightarrow> v"
  let ?a = "e\<lparr>columns := map (\<lambda>c. (c, ?look c)) model_columns\<rparr>"
  from e(2) have "distinct (column_names e)" by (simp add: wf_frame_def)
  then have al: "align_columns e model_columns = Inr ?a" by (rule align_columns_eq)
  have "is_num (?look c)" for c
  proof (cases "map_of (columns e) c")
    case None
    then show ?thesis by (simp add: zero_column_def)
  next
    case (Some v)
    then have "(c, v) \<in> set (columns e)" by (rule map_of_SomeD)
    with e(4) have "is_num v" by (force simp: list_all_iff)
    with Some show ?thesis by simp
  qed
  then have "list_all (\<lambda>p. is_num (snd p)) (columns ?a)" by (simp add: list_all_iff)
  from to_matrix_shape [OF this] obtain m where
    m: "to_matrix ?a = Inr m" "length m = nrows ?a" "\<forall>r\<in>set m. length r = length (columns ?a)"
    by blast
  have "aligned_matrix (with_bins df) model_columns = Inr m"
    by (simp add: aligned_matrix_def e(1) al m(1))
  with m(2,3) e(3) show ?thesis by simp
qed

lemma preprocess_input_valid:
  assumes "valid_input df"
  shows "preprocess_input df model_columns scaler
           = (with_bins df,
              case aligned_matrix (with_bins df) model_columns of
                Inl e \<Rightarrow> Inl e | Inr m \<Rightarrow> scaler m)"
  by (simp add: preprocess_input_def bin_features_ok [OF assms] transform_features_def)

lemma standard_scaler_shape:
  assumes "m \<noteq> []" and "\<forall>r\<in>set m. length r = length mean" and "length scale = length mean"
  shows "\<exists>m'. standard_scaler mean scale m = Inr m' \<and> map length m' = map length m"
  using assms by (auto simp: standard_scaler_def list_ex_iff)

lemma cols_named_setitem_same:
  assumes "distinct (column_names df)"
  shows "cols_named (setitem df c v) c = [(c, v)]"
proof -
  from assms have "distinct (column_names (setitem df c v))"
    by (simp add: column_names_setitem)
  then show ?thesis by (simp add: cols_named_distinct map_of_setitem)
qed

lemma get_series_setitem_same:
  "distinct (column_names df) \<Longrightarrow> get_series (setitem df c v) c = Inr v"
  by (simp add: get_series_def cols_named_setitem_same)

text \<open>
  C4. For a valid batch of at least one row, and a scaler that accepts the matrices of the
  width of the model columns and keeps their shape, the pipeline returns a matrix with one row
  per record, every row as wide as the list of model columns: the width after alignment never
  differs from it.
\<close>

theorem output_width:
  assumes "valid_input df" and "0 < nrows df"
    and "\<forall>m. m \<noteq> [] \<and> (\<forall>r\<in>set m. length r = length model_columns)
             \<longrightarrow> (\<exists>m'. scaler m = Inr m' \<and> map length m' = map length m)"
  shows "\<exists>df' M. preprocess_input df model_columns scaler = (df', Inr M)
            \<and> length M = nrows df \<and> (\<forall>r\<in>set M. length r = length model_columns)"
proof -
  from aligned_matrix_ok [OF assms(1), of model_columns] obtain m where
    m: "aligned_matrix (with_bins df) model_columns = Inr m" "length m = nrows df"
       "\<forall>r\<in>set m. length r = length model_columns"
    by blast
  from m(2) assms(2) have "m \<noteq> []" by auto
  with assms(3) m(3) obtain M where M: "scaler m = Inr M" "map length M = map length m"
    by blast
  from M(2) have len: "length M = length m" by (rule map_eq_imp_length_eq)
  have "length r = length model_columns" if "r \<in> set M" for r
  proof -
    from that have "length r \<in> set (map length M)" by simp
    with M(2) have "length r \<in> length ` set m" by simp
    with m(3) show ?thesis by auto
  qed
  moreover have "preprocess_input df model_columns scaler = (with_bins df, Inr M)"
    by (simp add: preprocess_input_valid [OF assms(1)] m(1) M(1))
  ultimately show ?thesis using len m(2) by auto
qed

lemma valid_example_batch: "valid_input example_batch"
  by (simp add: valid_input_def wf_frame_def example_batch_def column_names_def required_cols_def
      is_numeric_col_def get_series_def cols_named_def)

theorem output_width_witness:
  "valid_input example_batch \<and> 0 < nrows example_batch
   \<and> (\<exists>df' M. preprocess_input example_batch example_columns example_scaler = (df', Inr M)
            \<and> length M = nrows example_batch
            \<and> list_all (\<lambda>r. length r = length example_columns) M)"
proof -
  have h1: "valid_input example_batch" by (rule valid_example_batch)
  have h2: "0 < nrows example_batch" by (simp add: example_batch_def)
  have h3: "\<forall>m. m \<noteq> [] \<and> (\<forall>r\<in>set m. length r = length example_columns)
             \<longrightarrow> (\<exists>m'. example_scaler m = Inr m' \<and> map length m' = map length m)"
    unfolding example_scaler_def
    by (intro allI impI standard_scaler_shape) (simp_all add: example_columns_def)
  from h1 h2 output_width [OF h1 h2 h3] show ?thesis unfolding list_all_iff by blast
qed

section \<open>Missing cells and the frame of the form\<close>

lemma dummies_1d_missing_cell:
  assumes "p \<in> set (dummies_1d pre col)" and "i < length (cells col)" and "cells col ! i = None"
  shows "num_values (snd p) ! i = 0"
  using assms by (auto simp: dummies_1d_def)

lemma valid_form_frame:
  "valid_input (form_frame no_of_projects salary age tenure dept_name title sex rating)"
  by (simp add: valid_input_def wf_frame_def form_frame_def column_names_def required_cols_def
      is_numeric_col_def get_series_def cols_named_def)

section \<open>The frame of the caller\<close>

lemma column_names_with_bins:
  "column_names (with_bins df)
     = column_names df
       @ filter (\<lambda>c. c \<notin> set (column_names df)) [''age_group'', ''tenure_group'', ''salary_bin'']"
  by (simp add: with_bins_def column_names_setitem)

lemma cols_named_with_bins:
  "c \<notin> {''age_group'', ''tenure_group'', ''salary_bin''}
     \<Longrightarrow> cols_named (with_bins df) c = cols_named df c"
  by (simp add: with_bins_def cols_named_setitem_other)

text \<open>
  C10, as the program has it. The pipeline writes into the frame of the caller: after the
  call on a valid batch the frame has the same rows, its labels followed by those of
  \<open>age_group\<close>, \<open>tenure_group\<close> and \<open>salary_bin\<close> that it did not have, every column of another
  label as before, and under the three labels the buckets of the ages, tenures and salaries.
\<close>

theorem preprocess_input_frame_effect:
  fixes df :: frame and model_columns :: "string list" and scaler :: scaler
  assumes "valid_input df"
  defines "after \<equiv> fst (preprocess_input df model_columns scaler)"
  shows "nrows after = nrows df
    \<and> column_names after
        = column_names df
          @ filter (\<lambda>c. c \<notin> set (column_names df)) [''age_group'', ''tenure_group'', ''salary_bin'']
    \<and> (\<forall>c. c \<notin> {''age_group'', ''tenure_group'', ''salary_bin''}
           \<longrightarrow> cols_named after c = cols_named df c)
    \<and> get_series after ''age_group''
        = Inr (CatCol age_labels (map (cut1 age_bins age_labels) (numeric_values df ''age'')))
    \<and> get_series after ''tenure_group''
        = Inr (CatCol tenure_labels (map (cut1 tenure_bins tenure_labels) (numeric_values df ''tenure'')))
    \<and> get_series after ''salary_bin''
        = Inr (CatCol salary_labels (map (cut1 salary_bins salary_labels) (numeric_values df ''salary'')))"
proof -
  have after: "after = with_bins df"
    by (simp add: after_def preprocess_input_valid [OF assms(1)])
  from assms(1) have d0: "distinct (column_names df)" by (simp add: valid_input_def wf_frame_def)
  let ?ag = "CatCol age_labels (map (cut1 age_bins age_labels) (numeric_values df ''age''))"
  let ?tg = "CatCol tenure_labels (map (cut1 tenure_bins tenure_labels) (numeric_values df ''tenure''))"
  let ?sb = "CatCol salary_labels (map (cut1 salary_bins salary_labels) (numeric_values df ''salary''))"
  let ?df1 = "setitem df ''age_group'' ?ag"
  let ?df2 = "setitem ?df1 ''tenure_group'' ?tg"
  have d1: "distinct (column_names ?df1)" using d0 by (simp add: column_names_setitem)
  then have d2: "distinct (column_names ?df2)" by (simp add: column_names_setitem)
  have g1: "get_series (with_bins df) ''age_group'' = Inr ?ag"
    unfolding with_bins_def
    by (simp add: get_series_setitem_other get_series_setitem_same [OF d0])
  have g2: "get_series (with_bins df) ''tenure_group'' = Inr ?tg"
    unfolding with_bins_def
    by (simp add: get_series_setitem_other get_series_setitem_same [OF d1])
  have g3: "get_series (with_bins df) ''salary_bin'' = Inr ?sb"
    unfolding with_bins_def
    by (simp add: get_series_setitem_same [OF d2])
  show ?thesis
    unfolding after
    using g1 g2 g3 column_names_with_bins [of df] cols_named_with_bins [of _ df]
    by (simp add: nrows_with_bins)
qed

text \<open>
  C10 as stated fails: after the call on the example record the frame is another one, with
  three more columns.
\<close>

theorem input_frame_changed_counterexample:
  "fst (preprocess_input example_record example_columns example_scaler) \<noteq> example_record
   \<and> column_names (fst (preprocess_input example_record example_columns example_scaler))
       = [''age'', ''tenure'', ''salary'', ''dept_name'', ''title'', ''sex'',
          ''Last_performance_rating'', ''no_of_projects'',
          ''age_group'', ''tenure_group'', ''salary_bin'']"
  by code_simp

lemma valid_example_record: "valid_input example_record"
  by (simp add: valid_input_def wf_frame_def example_record_def column_names_def required_cols_def
      is_numeric_col_def get_series_def cols_named_def)

theorem preprocess_input_frame_effect_witness:
  "valid_input example_record
   \<and> nrows (fst (preprocess_input example_record example_columns example_scaler)) = 1
   \<and> cols_named (fst (preprocess_input example_record example_columns example_scaler)) ''age''
       = [(''age'', NumCol [30])]
   \<and> get_series (fst (preprocess_input example_record example_columns example_scaler)) ''age_group''
       = Inr (CatCol age_labels [Some ''29-36''])"
proof -
  have v: "valid_input example_record" by (rule valid_example_record)
  have n: "numeric_values example_record ''age'' = [30]"
    by (simp add: numeric_values_def get_series_def cols_named_def example_record_def)
  have c: "cols_named example_record ''age'' = [(''age'', NumCol [30])]"
    by (simp add: cols_named_def example_record_def)
  have r: "nrows example_record = 1" by (simp add: example_record_def)
  from preprocess_input_frame_effect [OF v, of example_columns example_scaler]
  show ?thesis using v by (simp add: n c r cut1_age)
qed

section \<open>Observed values\<close>

lemma distinct_observed: "distinct (observed col)"
  by (simp add: observed_def)

section \<open>A record and its batch\<close>

text \<open>
  C7. The example record is the second row of the example file. In the file its row has 1
  in the column \<open>dept_name_Sales\<close>; alone, its department is the only level, which
  drop-first removes, and alignment fills the column with 0. The scaler here works on each
  row apart.
\<close>

theorem row_depends_on_batch:
  "row_frame example_batch 1 = example_record
   \<and> snd (preprocess_input example_batch example_columns example_scaler)
     = Inr [[3, 1, 0, 0], [3, 1, 1, 0]]
   \<and> snd (preprocess_input example_record example_columns example_scaler)
     = Inr [[3, 1, 0, 0]]"
  by code_simp

section \<open>Labels and probabilities\<close>

lemma replaced_values:
  "p \<in> set (filter (\<lambda>p. fst p = c) (map (\<lambda>p. if fst p = c then (fst p, v) else p) xs))
     \<Longrightarrow> snd p = v"
  by (induction xs) (auto split: if_splits)

lemma cols_named_setitem_values:
  assumes "p \<in> set (cols_named (setitem df c v) c)"
  shows "snd p = v"
proof (cases "c \<in> set (column_names df)")
  case True
  with assms show ?thesis
    by (simp add: cols_named_def setitem_def del: set_filter) (rule replaced_values)
next
  case False
  then have "filter (\<lambda>p. fst p = c) (columns df) = []"
    by (auto simp: filter_empty_conv column_names_def)
  with False assms show ?thesis by (simp add: cols_named_def setitem_def)
qed

lemma label_in_setitem: "c \<in> set (column_names (setitem df c v))"
  by (simp add: set_column_names_setitem)

text \<open>
  C9, as the program has it. In the upload branch the column \<open>Prediction\<close> has Leave where
  the classifier predicts 1 and Stay elsewhere, and the column \<open>Probability\<close> has the
  probabilities of class 1. In the manual branch the message is that the employee will leave
  exactly when the first prediction is 1, then with the probability of class 1; otherwise the
  message that the employee will stay shows one minus that probability. A probability of
  class 1 in [0,1] makes the number shown lie in [0,1].
\<close>

theorem prediction_labels:
  "(main_app_upload df model scaler model_columns = (df', Inr rep) \<longrightarrow>
      (\<exists>M. snd (preprocess_input df model_columns scaler) = Inr M
         \<and> shown rep = df'
         \<and> ''Prediction'' \<in> set (column_names df')
         \<and> (\<forall>p\<in>set (cols_named df' ''Prediction'').
               snd p = ObjCol (map (\<lambda>p. Some (if p = 1 then ''Leave'' else ''Stay''))
                                (predict model M)))
         \<and> ''Probability'' \<in> set (column_names df')
         \<and> (\<forall>p\<in>set (cols_named df' ''Probability'').
               snd p = NumCol (map snd (predict_proba model M)))))
   \<and> (main_app_manual input_df model scaler model_columns = Inr msg \<longrightarrow>
      (\<exists>M prediction ps row rows.
           snd (preprocess_input input_df model_columns scaler) = Inr M
         \<and> predict model M = prediction # ps
         \<and> predict_proba model M = row # rows
         \<and> msg = (if prediction = 1 then WillLeave (snd row) else WillStay (1 - snd row))
         \<and> (0 \<le> snd row \<and> snd row \<le> 1
               \<longrightarrow> 0 \<le> shown_probability msg \<and> shown_probability msg \<le> 1)))"
proof -
  have upload: "\<exists>M. snd (preprocess_input df model_columns scaler) = Inr M
         \<and> shown rep = df'
         \<and> ''Prediction'' \<in> set (column_names df')
         \<and> (\<forall>p\<in>set (cols_named df' ''Prediction'').
               snd p = ObjCol (map (\<lambda>p. Some (if p = 1 then ''Leave'' else ''Stay''))
                                (predict model M)))
         \<and> ''Probability'' \<in> set (column_names df')
         \<and> (\<forall>p\<in>set (cols_named df' ''Probability'').
               snd p = NumCol (map snd (predict_proba model M)))"
    if run: "main_app_upload df model scaler model_columns = (df', Inr rep)"
  proof -
    obtain df1 r where pre: "preprocess_input df model_columns scaler = (df1, r)"
      by (cases "preprocess_input df model_columns scaler")
    let ?pred = "\<lambda>M. ObjCol (map (\<lambda>p. Some (if p = 1 then ''Leave'' else ''Stay'')) (predict model M))"
    let ?prob = "\<lambda>M. NumCol (map snd (predict_proba model M))"
    from run pre obtain M where M: "r = Inr M"
      by (cases r) (auto simp: main_app_upload_def split: if_splits)
    let ?df2 = "setitem df1 ''Prediction'' (?pred M)"
    let ?df3 = "setitem ?df2 ''Probability'' (?prob M)"
    from run pre M have res: "df' = ?df3" "shown rep = ?df3"
      by (auto simp: main_app_upload_def setitem_list_def Let_def split: if_splits)
    have p1: "''Prediction'' \<in> set (column_names ?df3)"
      by (simp add: set_column_names_setitem)
    have p2: "\<forall>p\<in>set (cols_named ?df3 ''Prediction''). snd p = ?pred M"
      by (simp add: cols_named_setitem_other cols_named_setitem_values)
    have q1: "''Probability'' \<in> set (column_names ?df3)"
      by (simp add: set_column_names_setitem)
    have q2: "\<forall>p\<in>set (cols_named ?df3 ''Probability''). snd p = ?prob M"
      by (simp add: cols_named_setitem_values)
    from pre M have "snd (preprocess_input df model_columns scaler) = Inr M" by simp
    with res p1 p2 q1 q2 show ?thesis by blast
  qed
  have manual: "\<exists>M prediction ps row rows.
           snd (preprocess_input input_df model_columns scaler) = Inr M
         \<and> predict model M = prediction # ps
         \<and> predict_proba model M = row # rows
         \<and> msg = (if prediction = 1 then WillLeave (snd row) else WillStay (1 - snd row))
         \<and> (0 \<le> snd row \<and> snd row \<le> 1
               \<longrightarrow> 0 \<le> shown_probability msg \<and> shown_probability msg \<le> 1)"
    if run: "main_app_manual input_df model scaler model_columns = Inr msg"
  proof -
    from run obtain M where M: "snd (preprocess_input input_df model_columns scaler) = Inr M"
      by (cases "snd (preprocess_input input_df model_columns scaler)")
         (auto simp: main_app_manual_def)
    from run M obtain prediction ps where P: "predict model M = prediction # ps"
      by (cases "predict model M") (auto simp: main_app_manual_def)
    from run M P obtain row rows where R: "predict_proba model M = row # rows"
      by (cases "predict_proba model M") (auto simp: main_app_manual_def)
    from run M P R have msg: "msg = (if prediction = 1 then WillLeave (snd row) else WillStay (1 - snd row))"
      by (auto simp: main_app_manual_def Let_def split: if_splits)
    then have "0 \<le> snd row \<and> snd row \<le> 1
               \<longrightarrow> 0 \<le> shown_probability msg \<and> shown_probability msg \<le> 1"
      by auto
    with M P R msg show ?thesis by blast
  qed
  from upload manual show ?thesis by blast
qed

text \<open>
  C9 as stated fails in the manual branch: for a record that the classifier keeps, with
  probability 1/5 of leaving, the message shows 4/5.
\<close>

theorem prediction_labels_counterexample:
  "main_app_manual example_record stay_classifier example_scaler example_columns
     = Inr (WillStay (4 / 5))
   \<and> snd (preprocess_input example_record example_columns example_scaler) = Inr [[3, 1, 0, 0]]
   \<and> predict stay_classifier [[3, 1, 0, 0]] = [0]
   \<and> map snd (predict_proba stay_classifier [[3, 1, 0, 0]]) = [1 / 5]"
  by code_simp

theorem prediction_labels_witness:
  "main_app_manual example_record leave_classifier example_scaler example_columns
     = Inr (WillLeave (9 / 10))
   \<and> \<not> isl (snd (main_app_upload example_batch stay_classifier example_scaler example_columns))
   \<and> ''Prediction'' \<in> set (column_names
         (fst (main_app_upload example_batch stay_classifier example_scaler example_columns)))
   \<and> ''Probability'' \<in> set (column_names
         (fst (main_app_upload example_batch stay_classifier example_scaler example_columns)))
   \<and> (\<exists>M prediction ps row rows.
         snd (preprocess_input example_record example_columns example_scaler) = Inr M
         \<and> predict leave_classifier M = prediction # ps
         \<and> predict_proba leave_classifier M = row # rows)"
proof -
  let ?U = "main_app_upload example_batch stay_classifier example_scaler example_columns"
  have m: "main_app_manual example_record leave_classifier example_scaler example_columns
             = Inr (WillLeave (9 / 10))"
    by code_simp
  have u: "\<not> isl (snd ?U)" by code_simp
  then obtain rep where "snd ?U = Inr rep" by (cases "snd ?U") auto
  then have run: "?U = (fst ?U, Inr rep)" by (simp add: prod_eq_iff)
  from prediction_labels [of example_batch stay_classifier example_scaler example_columns
      "fst ?U" rep] run
  have up: "''Prediction'' \<in> set (column_names (fst ?U))"
    "''Probability'' \<in> set (column_names (fst ?U))"
    by blast+
  from prediction_labels [where input_df = example_record and model = leave_classifier
      and scaler = example_scaler and model_columns = example_columns
      and msg = "WillLeave (9 / 10)"] m
  have "\<exists>M prediction ps row rows.
         snd (preprocess_input example_record example_columns example_scaler) = Inr M
         \<and> predict leave_classifier M = prediction # ps
         \<and> predict_proba leave_classifier M = row # rows"
    by blast
  with m u up show ?thesis by blast
qed

section \<open>The encoded frame of a valid batch\<close>

lemma get_series_distinct:
  "distinct (column_names df) \<Longrightarrow>
     get_series df c = (case map_of (columns df) c of None \<Rightarrow> Inl (KeyError c) | Some v \<Rightarrow> Inr v)"
  by (simp add: get_series_def cols_named_distinct split: option.splits)

lemma processed_frame_valid:
  assumes "valid_input df"
  shows "select (with_bins df) features = Inr (processed_frame (with_bins df))"
    and "encode_features (with_bins df) = Inr (get_dummies (processed_frame (with_bins df)))"
    and "column_names (processed_frame (with_bins df)) = features"
    and "nrows (processed_frame (with_bins df)) = nrows df"
    and "wf_frame (processed_frame (with_bins df))"
    and "\<And>f. f \<in> set features \<Longrightarrow>
           map_of (columns (processed_frame (with_bins df))) f = map_of (columns (with_bins df)) f"
proof -
  let ?b = "with_bins df"
  let ?p = "?b\<lparr>columns := map (\<lambda>c. (c, the (map_of (columns ?b) c))) features\<rparr>"
  have wfb: "wf_frame ?b" using assms by (rule wf_with_bins)
  then have d: "distinct (column_names ?b)" by (simp add: wf_frame_def)
  have sub: "set features \<subseteq> set (column_names ?b)" using assms by (rule features_with_bins)
  have sel: "select ?b features = Inr ?p" using d sub by (rule select_ok)
  then have p: "processed_frame ?b = ?p" by (simp add: processed_frame_def)
  show "select ?b features = Inr (processed_frame ?b)" by (simp add: p sel)
  show "encode_features ?b = Inr (get_dummies (processed_frame ?b))"
    by (simp add: encode_features_def sel p)
  show names: "column_names (processed_frame ?b) = features"
    by (simp add: p column_names_def o_def)
  show "nrows (processed_frame ?b) = nrows df" by (simp add: p nrows_with_bins)
  have some: "\<exists>v. map_of (columns ?b) c = Some v \<and> (c, v) \<in> set (columns ?b)"
    if "c \<in> set features" for c
  proof -
    from that sub have "c \<in> set (column_names ?b)" by auto
    then obtain v where v: "map_of (columns ?b) c = Some v"
      using map_of_none_names [of ?b c] by (cases "map_of (columns ?b) c") auto
    then have "(c, v) \<in> set (columns ?b)" by (rule map_of_SomeD)
    with v show ?thesis by blast
  qed
  have "wf_column (nrows ?b) (the (map_of (columns ?b) c))" if "c \<in> set features" for c
  proof -
    from some [OF that] obtain v where v: "map_of (columns ?b) c = Some v"
      "(c, v) \<in> set (columns ?b)" by blast
    with wfb have "wf_column (nrows ?b) v" by (force simp: wf_frame_def list_all_iff)
    with v show ?thesis by simp
  qed
  then have "list_all (\<lambda>q. wf_column (nrows ?p) (snd q)) (columns ?p)"
    by (simp add: list_all_iff)
  moreover have "distinct features" by (simp add: features_def)
  ultimately have "wf_frame ?p"
    unfolding wf_frame_def by (simp add: column_names_def o_def)
  then show "wf_frame (processed_frame ?b)" by (simp add: p)
  show "map_of (columns (processed_frame ?b)) f = map_of (columns ?b) f"
    if "f \<in> set features" for f
  proof -
    from some [OF that] obtain v where v: "map_of (columns ?b) f = Some v" by blast
    have "map_of (map (\<lambda>c. (c, the (map_of (columns ?b) c))) features) f
            = Some (the (map_of (columns ?b) f))"
      using that by (simp add: map_of_const_keys)
    with v show ?thesis by (simp add: p)
  qed
qed

lemma prefix_clash:
  assumes "prefix (f @ ''_'') (g @ ''_'' @ l)" and "f \<noteq> g"
  shows "prefix (f @ ''_'') g \<or> prefix (g @ ''_'') f"
proof -
  have "prefix (g @ ''_'') (g @ ''_'' @ l)" by simp
  with assms(1) have "prefix (f @ ''_'') (g @ ''_'') \<or> prefix (g @ ''_'') (f @ ''_'')"
    by (rule prefix_same_cases)
  with assms(2) show ?thesis by auto
qed

lemma not_prefix_self: "\<not> prefix (f @ ''_'') f"
  by (auto simp: prefix_def)

text \<open>
  A column of the encoded frame whose label begins with a feature and an underscore is an
  indicator column of that feature.
\<close>

lemma prefixed_column:
  assumes wf: "wf_frame p" and cf: "dummy_clash_free (column_names p)"
    and f: "map_of (columns p) f = Some col"
    and c: "(n, c) \<in> set (columns (get_dummies p))" and pre: "prefix (f @ ''_'') n"
  shows "\<exists>l. c = NumCol (map (\<lambda>v. if v = Some l then 1 else 0) (cells col))"
proof -
  from wf have d: "distinct (map fst (columns p))" by (simp add: wf_frame_def column_names_def)
  from f have fin: "(f, col) \<in> set (columns p)" by (rule map_of_SomeD)
  then have fname: "f \<in> set (column_names p)" by (force simp: column_names_def)
  from c consider
      (kept) "(n, c) \<in> set (columns p)"
    | (dummy) g cg where "(g, cg) \<in> set (columns p)" "(n, c) \<in> set (dummies_1d g cg)"
    by (auto simp: get_dummies_def split: if_splits)
  then show ?thesis
  proof cases
    case kept
    then have nname: "n \<in> set (column_names p)" by (force simp: column_names_def)
    from pre not_prefix_self have "f \<noteq> n" by auto
    with clash_freeD [OF cf fname nname] pre show ?thesis by simp
  next
    case dummy
    then obtain l where l: "n = g @ ''_'' @ l"
      "c = NumCol (map (\<lambda>v. if v = Some l then 1 else 0) (cells cg))"
      by (auto simp: dummies_1d_def)
    from dummy(1) have gname: "g \<in> set (column_names p)" by (force simp: column_names_def)
    have "f = g"
    proof (rule ccontr)
      assume ne: "f \<noteq> g"
      from pre l(1) have "prefix (f @ ''_'') (g @ ''_'' @ l)" by simp
      from prefix_clash [OF this ne] clash_freeD [OF cf fname gname ne]
        clash_freeD [OF cf gname fname] ne
      show False by auto
    qed
    with dummy(1) f d have "cg = col" by simp
    with l(2) show ?thesis by blast
  qed
qed

lemma filter_dummy_names:
  assumes "distinct (map fst cs)"
    and "\<forall>g\<in>fst ` set cs. g \<noteq> f \<longrightarrow> \<not> prefix (f @ ''_'') g \<and> \<not> prefix (g @ ''_'') f"
  shows "filter (prefix (f @ ''_'')) (dummy_names cs)
           = (case map_of cs f of
                None \<Rightarrow> []
              | Some col \<Rightarrow> if is_encoded col then map fst (dummies_1d f col) else [])"
  using assms
proof (induction cs)
  case Nil
  then show ?case by (simp add: dummy_names_def)
next
  case (Cons q cs)
  obtain g cg where q: "q = (g, cg)" by (cases q)
  from Cons.prems have IH: "filter (prefix (f @ ''_'')) (dummy_names cs)
           = (case map_of cs f of
                None \<Rightarrow> []
              | Some col \<Rightarrow> if is_encoded col then map fst (dummies_1d f col) else [])"
    by (intro Cons.IH) auto
  show ?case
  proof (cases "g = f")
    case True
    with Cons.prems(1) q have "f \<notin> fst ` set cs" by auto
    then have none: "map_of cs f = None" by (simp add: map_of_eq_None_iff)
    have "filter (prefix (f @ ''_'')) (map fst (dummies_1d f cg)) = map fst (dummies_1d f cg)"
      by (simp add: names_dummies_1d filter_map o_def)
    with True q IH none show ?thesis by (simp add: dummy_names_Cons)
  next
    case False
    have "filter (prefix (f @ ''_'')) (map fst (dummies_1d g cg)) = []"
    proof -
      have "\<not> prefix (f @ ''_'') (g @ ''_'' @ l)" for l
      proof
        assume "prefix (f @ ''_'') (g @ ''_'' @ l)"
        from prefix_clash [OF this] False Cons.prems(2) q show False by auto
      qed
      then show ?thesis by (simp add: names_dummies_1d filter_map o_def)
    qed
    with False q IH show ?thesis by (simp add: dummy_names_Cons)
  qed
qed

lemma generated_columns_get_dummies:
  assumes wf: "wf_frame p" and cf: "dummy_clash_free (column_names p)"
    and f: "map_of (columns p) f = Some col"
  shows "generated_columns f (get_dummies p)
           = (if is_encoded col then map (\<lambda>l. f @ ''_'' @ l) (drop 1 (levels col)) else [])"
proof -
  from wf have d: "distinct (map fst (columns p))" by (simp add: wf_frame_def column_names_def)
  from f have "(f, col) \<in> set (columns p)" by (rule map_of_SomeD)
  then have fname: "f \<in> set (column_names p)" by (force simp: column_names_def)
  have other: "\<forall>g\<in>fst ` set (columns p).
                 g \<noteq> f \<longrightarrow> \<not> prefix (f @ ''_'') g \<and> \<not> prefix (g @ ''_'') f"
  proof (intro ballI impI)
    fix g assume g: "g \<in> fst ` set (columns p)" and ne: "g \<noteq> f"
    then have gname: "g \<in> set (column_names p)" by (simp add: column_names_def)
    from clash_freeD [OF cf fname gname] clash_freeD [OF cf gname fname] ne
    show "\<not> prefix (f @ ''_'') g \<and> \<not> prefix (g @ ''_'') f" by auto
  qed
  have kept: "filter (prefix (f @ ''_''))
                (map fst (filter (\<lambda>q. \<not> is_encoded (snd q)) (columns p))) = []"
  proof -
    have "\<not> prefix (f @ ''_'') (fst q)" if "q \<in> set (columns p)" for q
    proof (cases "fst q = f")
      case True
      then show ?thesis by (simp add: not_prefix_self)
    next
      case False
      with other that show ?thesis by auto
    qed
    then show ?thesis by (auto simp: filter_empty_conv)
  qed
  show ?thesis
    unfolding generated_columns_def columns_get_dummies
    by (simp add: kept filter_dummy_names [OF d other] f names_dummies_1d)
qed

section \<open>The entries of the matrix\<close>

lemma to_matrix_entry:
  assumes "to_matrix a = Inr m" and "i < nrows a" and "j < length (columns a)"
  shows "m ! i ! j = num_values (snd (columns a ! j)) ! i"
  using assms by (auto simp: to_matrix_def split: if_splits)

lemma aligned_matrix_entries:
  assumes "valid_input df"
  shows "\<exists>m. aligned_matrix (with_bins df) model_columns = Inr m \<and> length m = nrows df
           \<and> (\<forall>i<nrows df. \<forall>j<length model_columns.
                 m ! i ! j =
                   num_values
                     (case map_of (columns (get_dummies (processed_frame (with_bins df))))
                             (model_columns ! j) of
                        None \<Rightarrow> NumCol (replicate (nrows df) 0) | Some v \<Rightarrow> v) ! i)"
proof -
  let ?e = "get_dummies (processed_frame (with_bins df))"
  note pf = processed_frame_valid [OF assms]
  have cf: "dummy_clash_free (column_names (processed_frame (with_bins df)))"
    by (simp add: pf(3) clash_free_features)
  have wfe: "wf_frame ?e" using pf(5) cf by (rule wf_frame_get_dummies)
  have ne: "nrows ?e = nrows df" by (simp add: nrows_get_dummies pf(4))
  let ?look = "\<lambda>c. case map_of (columns ?e) c of None \<Rightarrow> zero_column ?e | Some v \<Rightarrow> v"
  let ?a = "?e\<lparr>columns := map (\<lambda>c. (c, ?look c)) model_columns\<rparr>"
  from wfe have "distinct (column_names ?e)" by (simp add: wf_frame_def)
  then have al: "align_columns ?e model_columns = Inr ?a" by (rule align_columns_eq)
  have "is_num (?look c)" for c
  proof (cases "map_of (columns ?e) c")
    case None
    then show ?thesis by (simp add: zero_column_def)
  next
    case (Some v)
    then have "(c, v) \<in> set (columns ?e)" by (rule map_of_SomeD)
    with all_num_get_dummies [of "processed_frame (with_bins df)"] have "is_num v"
      by (force simp: list_all_iff)
    with Some show ?thesis by simp
  qed
  then have "list_all (\<lambda>q. is_num (snd q)) (columns ?a)" by (simp add: list_all_iff)
  from to_matrix_shape [OF this] obtain m where
    m: "to_matrix ?a = Inr m" "length m = nrows ?a" by blast
  have am: "aligned_matrix (with_bins df) model_columns = Inr m"
    by (simp add: aligned_matrix_def pf(2) al m(1))
  have z: "zero_column ?e = NumCol (replicate (nrows df) 0)" by (simp add: zero_column_def ne)
  have "m ! i ! j = num_values (?look (model_columns ! j)) ! i"
    if "i < nrows df" "j < length model_columns" for i j
    using to_matrix_entry [OF m(1), of i j] that ne by simp
  then show ?thesis using am m(2) ne unfolding z by auto
qed

section \<open>The binned columns\<close>

lemma binned_columns:
  assumes "valid_input df"
  shows "get_series (with_bins df) ''age_group''
           = Inr (CatCol age_labels (map (cut1 age_bins age_labels) (numeric_values df ''age'')))"
    and "get_series (with_bins df) ''tenure_group''
           = Inr (CatCol tenure_labels
                   (map (cut1 tenure_bins tenure_labels) (numeric_values df ''tenure'')))"
    and "get_series (with_bins df) ''salary_bin''
           = Inr (CatCol salary_labels
                   (map (cut1 salary_bins salary_labels) (numeric_values df ''salary'')))"
proof -
  from assms have d0: "distinct (column_names df)" by (simp add: valid_input_def wf_frame_def)
  let ?ag = "CatCol age_labels (map (cut1 age_bins age_labels) (numeric_values df ''age''))"
  let ?tg = "CatCol tenure_labels (map (cut1 tenure_bins tenure_labels) (numeric_values df ''tenure''))"
  let ?df1 = "setitem df ''age_group'' ?ag"
  let ?df2 = "setitem ?df1 ''tenure_group'' ?tg"
  have d1: "distinct (column_names ?df1)" using d0 by (simp add: column_names_setitem)
  then have d2: "distinct (column_names ?df2)" by (simp add: column_names_setitem)
  show "get_series (with_bins df) ''age_group'' = Inr ?ag"
    unfolding with_bins_def
    by (simp add: get_series_setitem_other get_series_setitem_same [OF d0])
  show "get_series (with_bins df) ''tenure_group'' = Inr ?tg"
    unfolding with_bins_def
    by (simp add: get_series_setitem_other get_series_setitem_same [OF d1])
  show "get_series (with_bins df) ''salary_bin''
           = Inr (CatCol salary_labels
                   (map (cut1 salary_bins salary_labels) (numeric_values df ''salary'')))"
    unfolding with_bins_def
    by (simp add: get_series_setitem_same [OF d2])
qed

lemma numeric_values_eq: "get_series df c = Inr (NumCol xs) \<Longrightarrow> numeric_values df c = xs"
  by (simp add: numeric_values_def)

lemma numeric_length:
  assumes "valid_input df" and "get_series df c = Inr (NumCol xs)"
  shows "length xs = nrows df"
proof -
  from assms(2) have "(c, NumCol xs) \<in> set (columns df)" by (rule get_series_mem)
  with assms(1) have "wf_column (nrows df) (NumCol xs)"
    by (force simp: valid_input_def wf_frame_def list_all_iff)
  then show ?thesis by simp
qed

lemma valid_example_edges: "valid_input example_edges"
  by (simp add: valid_input_def wf_frame_def example_edges_def column_names_def required_cols_def
      is_numeric_col_def get_series_def cols_named_def)

text \<open>
  C2. The pipeline bins with half-open intervals, the lower bound inside and the upper bound
  outside. After the call on a valid batch the frame holds the columns \<open>age_group\<close>,
  \<open>tenure_group\<close> and \<open>salary_bin\<close>, one bucket per record, and for every record: an age
  in [21,29) has the bucket 21-28, and so on to [54,62) with 54-61; a tenure in [0,6) has 0-5,
  and so on to [24,30) with 24-29; a salary in [40000,60000) is low, in [60000,80000) medium,
  in [80000,100000) high, in [100000,130000) very_high.
\<close>

theorem binning_half_open:
  assumes "valid_input df" and "i < nrows df"
    and "get_series df ''age'' = Inr (NumCol ages)"
    and "get_series df ''tenure'' = Inr (NumCol tenures)"
    and "get_series df ''salary'' = Inr (NumCol salaries)"
  shows "\<exists>ag tg sb.
      get_series (fst (preprocess_input df model_columns scaler)) ''age_group''
        = Inr (CatCol age_labels ag)
    \<and> get_series (fst (preprocess_input df model_columns scaler)) ''tenure_group''
        = Inr (CatCol tenure_labels tg)
    \<and> get_series (fst (preprocess_input df model_columns scaler)) ''salary_bin''
        = Inr (CatCol salary_labels sb)
    \<and> length ag = nrows df \<and> length tg = nrows df \<and> length sb = nrows df
    \<and> (21 \<le> ages ! i \<and> ages ! i < 29 \<longrightarrow> ag ! i = Some ''21-28'')
    \<and> (29 \<le> ages ! i \<and> ages ! i < 37 \<longrightarrow> ag ! i = Some ''29-36'')
    \<and> (37 \<le> ages ! i \<and> ages ! i < 46 \<longrightarrow> ag ! i = Some ''37-45'')
    \<and> (46 \<le> ages ! i \<and> ages ! i < 54 \<longrightarrow> ag ! i = Some ''46-53'')
    \<and> (54 \<le> ages ! i \<and> ages ! i < 62 \<longrightarrow> ag ! i = Some ''54-61'')
    \<and> (0 \<le> tenures ! i \<and> tenures ! i < 6 \<longrightarrow> tg ! i = Some ''0-5'')
    \<and> (6 \<le> tenures ! i \<and> tenures ! i < 12 \<longrightarrow> tg ! i = Some ''6-11'')
    \<and> (12 \<le> tenures ! i \<and> tenures ! i < 18 \<longrightarrow> tg ! i = Some ''12-17'')
    \<and> (18 \<le> tenures ! i \<and> tenures ! i < 24 \<longrightarrow> tg ! i = Some ''18-23'')
    \<and> (24 \<le> tenures ! i \<and> tenures ! i < 30 \<longrightarrow> tg ! i = Some ''24-29'')
    \<and> (40000 \<le> salaries ! i \<and> salaries ! i < 60000 \<longrightarrow> sb ! i = Some ''low'')
    \<and> (60000 \<le> salaries ! i \<and> salaries ! i < 80000 \<longrightarrow> sb ! i = Some ''medium'')
    \<and> (80000 \<le> salaries ! i \<and> salaries ! i < 100000 \<longrightarrow> sb ! i = Some ''high'')
    \<and> (100000 \<le> salaries ! i \<and> salaries ! i < 130000 \<longrightarrow> sb ! i = Some ''very_high'')"
proof -
  let ?ag = "map (cut1 age_bins age_labels) ages"
  let ?tg = "map (cut1 tenure_bins tenure_labels) tenures"
  let ?sb = "map (cut1 salary_bins salary_labels) salaries"
  have after: "fst (preprocess_input df model_columns scaler) = with_bins df"
    by (simp add: preprocess_input_valid [OF assms(1)])
  have la: "length ages = nrows df" using assms(1,3) by (rule numeric_length)
  have lt: "length tenures = nrows df" using assms(1,4) by (rule numeric_length)
  have ls: "length salaries = nrows df" using assms(1,5) by (rule numeric_length)
  have cols: "get_series (with_bins df) ''age_group'' = Inr (CatCol age_labels ?ag)"
    "get_series (with_bins df) ''tenure_group'' = Inr (CatCol tenure_labels ?tg)"
    "get_series (with_bins df) ''salary_bin'' = Inr (CatCol salary_labels ?sb)"
    using binned_columns [OF assms(1)]
    by (simp_all add: numeric_values_eq [OF assms(3)] numeric_values_eq [OF assms(4)]
        numeric_values_eq [OF assms(5)])
  have a: "?ag ! i = cut1 age_bins age_labels (ages ! i)" using assms(2) la by simp
  have t: "?tg ! i = cut1 tenure_bins tenure_labels (tenures ! i)" using assms(2) lt by simp
  have s: "?sb ! i = cut1 salary_bins salary_labels (salaries ! i)" using assms(2) ls by simp
  have age: "(21 \<le> ages ! i \<and> ages ! i < 29 \<longrightarrow> ?ag ! i = Some ''21-28'')
    \<and> (29 \<le> ages ! i \<and> ages ! i < 37 \<longrightarrow> ?ag ! i = Some ''29-36'')
    \<and> (37 \<le> ages ! i \<and> ages ! i < 46 \<longrightarrow> ?ag ! i = Some ''37-45'')
    \<and> (46 \<le> ages ! i \<and> ages ! i < 54 \<longrightarrow> ?ag ! i = Some ''46-53'')
    \<and> (54 \<le> ages ! i \<and> ages ! i < 62 \<longrightarrow> ?ag ! i = Some ''54-61'')"
    unfolding a cut1_age by simp
  have tenure: "(0 \<le> tenures ! i \<and> tenures ! i < 6 \<longrightarrow> ?tg ! i = Some ''0-5'')
    \<and> (6 \<le> tenures ! i \<and> tenures ! i < 12 \<longrightarrow> ?tg ! i = Some ''6-11'')
    \<and> (12 \<le> tenures ! i \<and> tenures ! i < 18 \<longrightarrow> ?tg ! i = Some ''12-17'')
    \<and> (18 \<le> tenures ! i \<and> tenures ! i < 24 \<longrightarrow> ?tg ! i = Some ''18-23'')
    \<and> (24 \<le> tenures ! i \<and> tenures ! i < 30 \<longrightarrow> ?tg ! i = Some ''24-29'')"
    unfolding t cut1_tenure by simp
  have salary: "(40000 \<le> salaries ! i \<and> salaries ! i < 60000 \<longrightarrow> ?sb ! i = Some ''low'')
    \<and> (60000 \<le> salaries ! i \<and> salaries ! i < 80000 \<longrightarrow> ?sb ! i = Some ''medium'')
    \<and> (80000 \<le> salaries ! i \<and> salaries ! i < 100000 \<longrightarrow> ?sb ! i = Some ''high'')
    \<and> (100000 \<le> salaries ! i \<and> salaries ! i < 130000 \<longrightarrow> ?sb ! i = Some ''very_high'')"
    unfolding s cut1_salary by simp
  have len: "length ?ag = nrows df \<and> length ?tg = nrows df \<and> length ?sb = nrows df"
    using la lt ls by simp
  show ?thesis
    unfolding after
    apply (rule exI [of _ ?ag], rule exI [of _ ?tg], rule exI [of _ ?sb])
    using cols len age tenure salary by blast
qed

theorem binning_half_open_witness:
  "valid_input example_edges
   \<and> get_series example_edges ''age'' = Inr (NumCol [21, 28, 29, 61])
   \<and> get_series example_edges ''tenure'' = Inr (NumCol [0, 5, 6, 29])
   \<and> get_series example_edges ''salary'' = Inr (NumCol [40000, 59999, 60000, 129999])
   \<and> (\<exists>ag tg sb.
        get_series (fst (preprocess_input example_edges example_columns example_scaler)) ''age_group''
          = Inr (CatCol age_labels ag)
      \<and> get_series (fst (preprocess_input example_edges example_columns example_scaler)) ''tenure_group''
          = Inr (CatCol tenure_labels tg)
      \<and> get_series (fst (preprocess_input example_edges example_columns example_scaler)) ''salary_bin''
          = Inr (CatCol salary_labels sb)
      \<and> ag ! 0 = Some ''21-28'' \<and> tg ! 0 = Some ''0-5'' \<and> sb ! 0 = Some ''low''
      \<and> ag ! 3 = Some ''54-61'' \<and> tg ! 3 = Some ''24-29'' \<and> sb ! 3 = Some ''very_high'')"
proof -
  let ?after = "fst (preprocess_input example_edges example_columns example_scaler)"
  have v: "valid_input example_edges" by (rule valid_example_edges)
  have a: "get_series example_edges ''age'' = Inr (NumCol [21, 28, 29, 61])"
    and t: "get_series example_edges ''tenure'' = Inr (NumCol [0, 5, 6, 29])"
    and s: "get_series example_edges ''salary'' = Inr (NumCol [40000, 59999, 60000, 129999])"
    by (simp_all add: get_series_def cols_named_def example_edges_def)
  have n0: "0 < nrows example_edges" and n3: "3 < nrows example_edges"
    by (simp_all add: example_edges_def)
  from binning_half_open [OF v n0 a t s, of example_columns example_scaler]
  obtain ag tg sb where
    g: "get_series ?after ''age_group'' = Inr (CatCol age_labels ag)"
       "get_series ?after ''tenure_group'' = Inr (CatCol tenure_labels tg)"
       "get_series ?after ''salary_bin'' = Inr (CatCol salary_labels sb)"
    and r0: "ag ! 0 = Some ''21-28''" "tg ! 0 = Some ''0-5''" "sb ! 0 = Some ''low''"
    by auto
  from binning_half_open [OF v n3 a t s, of example_columns example_scaler]
  obtain ag' tg' sb' where
    g': "get_series ?after ''age_group'' = Inr (CatCol age_labels ag')"
       "get_series ?after ''tenure_group'' = Inr (CatCol tenure_labels tg')"
       "get_series ?after ''salary_bin'' = Inr (CatCol salary_labels sb')"
    and r3: "ag' ! 3 = Some ''54-61''" "tg' ! 3 = Some ''24-29''" "sb' ! 3 = Some ''very_high''"
    by (auto simp: numeral_3_eq_3)
  from g g' have "ag' = ag" "tg' = tg" "sb' = sb" by simp_all
  with r3 have r3': "ag ! 3 = Some ''54-61''" "tg ! 3 = Some ''24-29''" "sb ! 3 = Some ''very_high''"
    by simp_all
  from v a t s g r0 r3' show ?thesis by blast
qed

section \<open>Values outside the bins\<close>

text \<open>
  In the matrix that the scaler receives, a record whose cell of a feature is missing has 0
  in every model column that is an indicator of that feature.
\<close>

lemma missing_cell_zero:
  assumes v: "valid_input df" and f: "f \<in> set features"
    and col: "get_series (with_bins df) f = Inr col"
    and len: "length (cells col) = nrows df"
    and i: "i < nrows df" and none: "cells col ! i = None"
    and m: "aligned_matrix (with_bins df) model_columns = Inr m"
    and j: "j < length model_columns" and pre: "prefix (f @ ''_'') (model_columns ! j)"
  shows "m ! i ! j = 0"
proof -
  let ?p = "processed_frame (with_bins df)"
  let ?e = "get_dummies ?p"
  note pf = processed_frame_valid [OF v]
  have cf: "dummy_clash_free (column_names ?p)" by (simp add: pf(3) clash_free_features)
  from wf_with_bins [OF v] have "distinct (column_names (with_bins df))"
    by (simp add: wf_frame_def)
  from col get_series_distinct [OF this, of f] have "map_of (columns (with_bins df)) f = Some col"
    by (simp split: option.splits)
  with pf(6) [OF f] have pcol: "map_of (columns ?p) f = Some col" by simp
  from aligned_matrix_entries [OF v, of model_columns] m i j
  have entry: "m ! i ! j =
      num_values (case map_of (columns ?e) (model_columns ! j) of
                    None \<Rightarrow> NumCol (replicate (nrows df) 0) | Some c \<Rightarrow> c) ! i"
    by auto
  show ?thesis
  proof (cases "map_of (columns ?e) (model_columns ! j)")
    case None
    with entry i show ?thesis by simp
  next
    case (Some c)
    then have "(model_columns ! j, c) \<in> set (columns ?e)" by (rule map_of_SomeD)
    from prefixed_column [OF pf(5) cf pcol this pre]
    obtain l where "c = NumCol (map (\<lambda>v. if v = Some l then 1 else 0) (cells col))" by blast
    with Some entry i len none show ?thesis by simp
  qed
qed

text \<open>
  C1, as the program has it. There is no check of the range. For every record of a valid
  batch the pipeline bins, encodes and aligns without an error and hands the matrix to the
  scaler; a record whose age, tenure or salary is below the first boundary or at or above the
  last has no bucket (NaN) in the binned column, and its row of that matrix has 0 in every
  model column that is an indicator of that feature.
\<close>

theorem out_of_range_not_rejected:
  assumes "valid_input df" and "i < nrows df"
    and "get_series df ''age'' = Inr (NumCol ages)"
    and "get_series df ''tenure'' = Inr (NumCol tenures)"
    and "get_series df ''salary'' = Inr (NumCol salaries)"
  shows "\<exists>ag tg sb m.
      get_series (fst (preprocess_input df model_columns scaler)) ''age_group''
        = Inr (CatCol age_labels ag)
    \<and> get_series (fst (preprocess_input df model_columns scaler)) ''tenure_group''
        = Inr (CatCol tenure_labels tg)
    \<and> get_series (fst (preprocess_input df model_columns scaler)) ''salary_bin''
        = Inr (CatCol salary_labels sb)
    \<and> aligned_matrix (fst (preprocess_input df model_columns scaler)) model_columns = Inr m
    \<and> length m = nrows df
    \<and> snd (preprocess_input df model_columns scaler) = scaler m
    \<and> (ages ! i < 21 \<or> 62 \<le> ages ! i \<longrightarrow>
          ag ! i = None
          \<and> (\<forall>j<length model_columns.
                prefix ''age_group_'' (model_columns ! j) \<longrightarrow> m ! i ! j = 0))
    \<and> (tenures ! i < 0 \<or> 30 \<le> tenures ! i \<longrightarrow>
          tg ! i = None
          \<and> (\<forall>j<length model_columns.
                prefix ''tenure_group_'' (model_columns ! j) \<longrightarrow> m ! i ! j = 0))
    \<and> (salaries ! i < 40000 \<or> 130000 \<le> salaries ! i \<longrightarrow>
          sb ! i = None
          \<and> (\<forall>j<length model_columns.
                prefix ''salary_bin_'' (model_columns ! j) \<longrightarrow> m ! i ! j = 0))"
proof -
  let ?ag = "map (cut1 age_bins age_labels) ages"
  let ?tg = "map (cut1 tenure_bins tenure_labels) tenures"
  let ?sb = "map (cut1 salary_bins salary_labels) salaries"
  note v = assms(1)
  have after: "fst (preprocess_input df model_columns scaler) = with_bins df"
    by (simp add: preprocess_input_valid [OF v])
  have la: "length ages = nrows df" using v assms(3) by (rule numeric_length)
  have lt: "length tenures = nrows df" using v assms(4) by (rule numeric_length)
  have ls: "length salaries = nrows df" using v assms(5) by (rule numeric_length)
  have cols: "get_series (with_bins df) ''age_group'' = Inr (CatCol age_labels ?ag)"
    "get_series (with_bins df) ''tenure_group'' = Inr (CatCol tenure_labels ?tg)"
    "get_series (with_bins df) ''salary_bin'' = Inr (CatCol salary_labels ?sb)"
    using binned_columns [OF v]
    by (simp_all add: numeric_values_eq [OF assms(3)] numeric_values_eq [OF assms(4)]
        numeric_values_eq [OF assms(5)])
  from aligned_matrix_ok [OF v, of model_columns] obtain m where
    m: "aligned_matrix (with_bins df) model_columns = Inr m" "length m = nrows df"
    by blast
  have run: "snd (preprocess_input df model_columns scaler) = scaler m"
    by (simp add: preprocess_input_valid [OF v] m(1))
  have fa: "''age_group'' \<in> set features" and ft: "''tenure_group'' \<in> set features"
    and fs: "''salary_bin'' \<in> set features"
    by (simp_all add: features_def)
  have age: "?ag ! i = None
          \<and> (\<forall>j<length model_columns.
                prefix ''age_group_'' (model_columns ! j) \<longrightarrow> m ! i ! j = 0)"
    if out: "ages ! i < 21 \<or> 62 \<le> ages ! i"
  proof -
    from out have none: "?ag ! i = None" using assms(2) la by (auto simp: cut1_age)
    have "m ! i ! j = 0"
      if "j < length model_columns" "prefix ''age_group_'' (model_columns ! j)" for j
      using missing_cell_zero [OF v fa cols(1) _ assms(2) _ m(1) that(1)] that(2) none la
      by simp
    with none show ?thesis by blast
  qed
  have tenure: "?tg ! i = None
          \<and> (\<forall>j<length model_columns.
                prefix ''tenure_group_'' (model_columns ! j) \<longrightarrow> m ! i ! j = 0)"
    if out: "tenures ! i < 0 \<or> 30 \<le> tenures ! i"
  proof -
    from out have none: "?tg ! i = None" using assms(2) lt by (auto simp: cut1_tenure)
    have "m ! i ! j = 0"
      if "j < length model_columns" "prefix ''tenure_group_'' (model_columns ! j)" for j
      using missing_cell_zero [OF v ft cols(2) _ assms(2) _ m(1) that(1)] that(2) none lt
      by simp
    with none show ?thesis by blast
  qed
  have salary: "?sb ! i = None
          \<and> (\<forall>j<length model_columns.
                prefix ''salary_bin_'' (model_columns ! j) \<longrightarrow> m ! i ! j = 0)"
    if out: "salaries ! i < 40000 \<or> 130000 \<le> salaries ! i"
  proof -
    from out have none: "?sb ! i = None" using assms(2) ls by (auto simp: cut1_salary)
    have "m ! i ! j = 0"
      if "j < length model_columns" "prefix ''salary_bin_'' (model_columns ! j)" for j
      using missing_cell_zero [OF v fs cols(3) _ assms(2) _ m(1) that(1)] that(2) none ls
      by simp
    with none show ?thesis by blast
  qed
  show ?thesis
    unfolding after
    apply (rule exI [of _ ?ag], rule exI [of _ ?tg], rule exI [of _ ?sb], rule exI [of _ m])
    using cols m run [unfolded after] age tenure salary
    by (simp add: preprocess_input_valid [OF v])
qed

text \<open>
  C1 as stated fails: a salary of 130000, which the form accepts, lies outside every bin; the
  pipeline returns the row of an employee of the first salary bucket instead of an error.
\<close>

theorem out_of_range_counterexample:
  "get_series example_top_salary ''salary'' = Inr (NumCol [130000])
   \<and> cut1 salary_bins salary_labels 130000 = None
   \<and> snd (preprocess_input example_top_salary example_salary_columns example_scaler)
       = Inr [[3, 0, 0, 0]]"
  by code_simp

theorem out_of_range_not_rejected_witness:
  "valid_input example_top_salary
   \<and> get_series example_top_salary ''salary'' = Inr (NumCol [130000])
   \<and> (\<exists>sb m.
        get_series (fst (preprocess_input example_top_salary example_salary_columns example_scaler))
            ''salary_bin''
          = Inr (CatCol salary_labels sb)
      \<and> sb ! 0 = None
      \<and> aligned_matrix (fst (preprocess_input example_top_salary example_salary_columns example_scaler))
            example_salary_columns
          = Inr m
      \<and> snd (preprocess_input example_top_salary example_salary_columns example_scaler)
          = example_scaler m
      \<and> m ! 0 ! 1 = 0 \<and> m ! 0 ! 2 = 0 \<and> m ! 0 ! 3 = 0)"
proof -
  let ?after = "fst (preprocess_input example_top_salary example_salary_columns example_scaler)"
  have v: "valid_input example_top_salary"
    unfolding example_top_salary_def by (rule valid_form_frame)
  have a: "get_series example_top_salary ''age'' = Inr (NumCol [30])"
    and t: "get_series example_top_salary ''tenure'' = Inr (NumCol [5])"
    and s: "get_series example_top_salary ''salary'' = Inr (NumCol [130000])"
    by (simp_all add: get_series_def cols_named_def example_top_salary_def form_frame_def)
  have n: "0 < nrows example_top_salary"
    by (simp add: example_top_salary_def form_frame_def)
  from out_of_range_not_rejected [OF v n a t s, of example_salary_columns example_scaler]
  obtain sb m where
    g: "get_series ?after ''salary_bin'' = Inr (CatCol salary_labels sb)"
    and none: "sb ! 0 = None"
    and m: "aligned_matrix ?after example_salary_columns = Inr m"
           "snd (preprocess_input example_top_salary example_salary_columns example_scaler)
              = example_scaler m"
    and z: "\<forall>j<length example_salary_columns.
              prefix ''salary_bin_'' (example_salary_columns ! j) \<longrightarrow> m ! 0 ! j = 0"
    by auto
  from z [rule_format, of 1] have z1: "m ! 0 ! 1 = 0" by (simp add: example_salary_columns_def)
  from z [rule_format, of 2] have z2: "m ! 0 ! 2 = 0" by (simp add: example_salary_columns_def)
  from z [rule_format, of 3] have z3: "m ! 0 ! 3 = 0"
    by (simp add: example_salary_columns_def numeral_3_eq_3)
  from v s g none m z1 z2 z3 show ?thesis by blast
qed

section \<open>One-hot encoding\<close>

lemma set_observed: "set (observed (ObjCol vs)) = {s. Some s \<in> set vs}"
  by (auto simp: observed_def split: option.splits)

text \<open>
  C5, as the program has it. In the frame that the pipeline encodes, an object column with k
  distinct values, k at least 1, gives k - 1 indicator columns (none when it has no value),
  named after its sorted values but the first: its categories are those of the batch. The
  three binned columns are categorical with the labels of their bins, and always give the
  indicator columns of every label but the first, 4, 4 and 3 of them, whatever the values of
  the batch. The encoded frame is the one that the pipeline aligns and scales.
\<close>

theorem dummies_count:
  assumes "valid_input df"
  shows "\<exists>e.
      encode_features (fst (preprocess_input df model_columns scaler)) = Inr e
    \<and> snd (preprocess_input df model_columns scaler)
        = (case align_columns e model_columns of
             Inl er \<Rightarrow> Inl er
           | Inr aligned \<Rightarrow> (case to_matrix aligned of Inl er \<Rightarrow> Inl er | Inr m \<Rightarrow> scaler m))
    \<and> (\<forall>f\<in>set features. \<forall>vs.
          get_series (fst (preprocess_input df model_columns scaler)) f = Inr (ObjCol vs) \<longrightarrow>
            generated_columns f e
              = map (\<lambda>l. f @ ''_'' @ l) (drop 1 (sort (observed (ObjCol vs))))
          \<and> ((\<exists>s. Some s \<in> set vs) \<longrightarrow>
                Suc (length (generated_columns f e)) = card {s. Some s \<in> set vs})
          \<and> ((\<forall>s. Some s \<notin> set vs) \<longrightarrow> generated_columns f e = []))
    \<and> generated_columns ''age_group'' e
        = [''age_group_29-36'', ''age_group_37-45'', ''age_group_46-53'', ''age_group_54-61'']
    \<and> generated_columns ''tenure_group'' e
        = [''tenure_group_6-11'', ''tenure_group_12-17'', ''tenure_group_18-23'',
           ''tenure_group_24-29'']
    \<and> generated_columns ''salary_bin'' e
        = [''salary_bin_medium'', ''salary_bin_high'', ''salary_bin_very_high'']"
proof -
  let ?b = "with_bins df"
  let ?p = "processed_frame ?b"
  let ?e = "get_dummies ?p"
  note v = assms
  note pf = processed_frame_valid [OF v]
  have after: "fst (preprocess_input df model_columns scaler) = ?b"
    by (simp add: preprocess_input_valid [OF v])
  have cf: "dummy_clash_free (column_names ?p)" by (simp add: pf(3) clash_free_features)
  have db: "distinct (column_names ?b)" using wf_with_bins [OF v] by (simp add: wf_frame_def)
  have gen: "generated_columns f ?e
               = (if is_encoded col then map (\<lambda>l. f @ ''_'' @ l) (drop 1 (levels col)) else [])"
    if "f \<in> set features" "get_series ?b f = Inr col" for f col
  proof -
    from that(2) get_series_distinct [OF db, of f] have "map_of (columns ?b) f = Some col"
      by (simp split: option.splits)
    with pf(6) [OF that(1)] have "map_of (columns ?p) f = Some col" by simp
    with pf(5) cf show ?thesis by (rule generated_columns_get_dummies)
  qed
  have result: "snd (preprocess_input df model_columns scaler)
        = (case align_columns ?e model_columns of
             Inl er \<Rightarrow> Inl er
           | Inr aligned \<Rightarrow> (case to_matrix aligned of Inl er \<Rightarrow> Inl er | Inr m \<Rightarrow> scaler m))"
    by (simp add: preprocess_input_valid [OF v] aligned_matrix_def pf(2) split: sum.splits)
  have obj: "generated_columns f ?e
              = map (\<lambda>l. f @ ''_'' @ l) (drop 1 (sort (observed (ObjCol vs))))
          \<and> ((\<exists>s. Some s \<in> set vs) \<longrightarrow>
                Suc (length (generated_columns f ?e)) = card {s. Some s \<in> set vs})
          \<and> ((\<forall>s. Some s \<notin> set vs) \<longrightarrow> generated_columns f ?e = [])"
    if f: "f \<in> set features" and g: "get_series ?b f = Inr (ObjCol vs)" for f vs
  proof -
    let ?o = "observed (ObjCol vs)"
    have names: "generated_columns f ?e = map (\<lambda>l. f @ ''_'' @ l) (drop 1 (sort ?o))"
      using gen [OF f g] by simp
    have card: "card {s. Some s \<in> set vs} = length ?o"
      using distinct_card [OF distinct_observed, of "ObjCol vs"] by (simp add: set_observed)
    have some: "Suc (length (generated_columns f ?e)) = card {s. Some s \<in> set vs}"
      if "\<exists>s. Some s \<in> set vs"
    proof -
      from that have "set ?o \<noteq> {}" by (simp add: set_observed)
      then have "?o \<noteq> []" by auto
      then have "0 < length ?o" by simp
      then show ?thesis unfolding names card by simp
    qed
    have none: "generated_columns f ?e = []" if "\<forall>s. Some s \<notin> set vs"
    proof -
      from that have "set ?o = {}" by (simp add: set_observed)
      then have "?o = []" by simp
      then show ?thesis unfolding names by simp
    qed
    from names some none show ?thesis by blast
  qed
  have bins: "generated_columns ''age_group'' ?e
        = [''age_group_29-36'', ''age_group_37-45'', ''age_group_46-53'', ''age_group_54-61'']"
    "generated_columns ''tenure_group'' ?e
        = [''tenure_group_6-11'', ''tenure_group_12-17'', ''tenure_group_18-23'',
           ''tenure_group_24-29'']"
    "generated_columns ''salary_bin'' ?e
        = [''salary_bin_medium'', ''salary_bin_high'', ''salary_bin_very_high'']"
    using gen [OF _ binned_columns(1) [OF v]] gen [OF _ binned_columns(2) [OF v]]
      gen [OF _ binned_columns(3) [OF v]]
    by (simp_all add: features_def age_labels_def tenure_labels_def salary_labels_def)
  have all_obj: "\<forall>f\<in>set features. \<forall>vs.
          get_series ?b f = Inr (ObjCol vs) \<longrightarrow>
            generated_columns f ?e
              = map (\<lambda>l. f @ ''_'' @ l) (drop 1 (sort (observed (ObjCol vs))))
          \<and> ((\<exists>s. Some s \<in> set vs) \<longrightarrow>
                Suc (length (generated_columns f ?e)) = card {s. Some s \<in> set vs})
          \<and> ((\<forall>s. Some s \<notin> set vs) \<longrightarrow> generated_columns f ?e = [])"
    using obj by blast
  show ?thesis
    unfolding after
    using pf(2) result all_obj bins
    by (intro exI [of _ ?e] conjI) assumption+
qed

text \<open>
  C5 as stated fails: the example record has one age, so one observed bucket, and the
  pipeline encodes its column of buckets into four indicator columns, the fixed labels but
  the first.
\<close>

theorem dummies_count_counterexample:
  "get_series (fst (preprocess_input example_record example_columns example_scaler)) ''age_group''
     = Inr (CatCol age_labels [Some ''29-36''])
   \<and> observed (CatCol age_labels [Some ''29-36'']) = [''29-36'']
   \<and> encode_features (fst (preprocess_input example_record example_columns example_scaler))
       = Inr \<lparr>nrows = 1,
              columns = [(''no_of_projects'', NumCol [3]),
                         (''salary_bin_medium'', NumCol [0]),
                         (''salary_bin_high'', NumCol [0]),
                         (''salary_bin_very_high'', NumCol [0]),
                         (''age_group_29-36'', NumCol [1]),
                         (''age_group_37-45'', NumCol [0]),
                         (''age_group_46-53'', NumCol [0]),
                         (''age_group_54-61'', NumCol [0]),
                         (''tenure_group_6-11'', NumCol [0]),
                         (''tenure_group_12-17'', NumCol [0]),
                         (''tenure_group_18-23'', NumCol [0]),
                         (''tenure_group_24-29'', NumCol [0])]\<rparr>"
  by code_simp

theorem dummies_count_witness:
  "valid_input example_batch
   \<and> get_series (fst (preprocess_input example_batch example_columns example_scaler)) ''dept_name''
       = Inr (ObjCol [Some ''Marketing'', Some ''Sales''])
   \<and> get_series (fst (preprocess_input example_batch example_columns example_scaler)) ''sex''
       = Inr (ObjCol [Some ''F'', Some ''F''])
   \<and> (\<exists>e. encode_features (fst (preprocess_input example_batch example_columns example_scaler))
             = Inr e
          \<and> generated_columns ''dept_name'' e = [''dept_name_Sales'']
          \<and> generated_columns ''sex'' e = []
          \<and> generated_columns ''salary_bin'' e
              = [''salary_bin_medium'', ''salary_bin_high'', ''salary_bin_very_high''])"
proof -
  let ?after = "fst (preprocess_input example_batch example_columns example_scaler)"
  have v: "valid_input example_batch" by (rule valid_example_batch)
  have d: "get_series ?after ''dept_name'' = Inr (ObjCol [Some ''Marketing'', Some ''Sales''])"
    and s: "get_series ?after ''sex'' = Inr (ObjCol [Some ''F'', Some ''F''])"
    by code_simp+
  have fd: "''dept_name'' \<in> set features" and fs: "''sex'' \<in> set features"
    by (simp_all add: features_def)
  have od: "sort (observed (ObjCol [Some ''Marketing'', Some ''Sales''])) = [''Marketing'', ''Sales'']"
    and os: "sort (observed (ObjCol [Some ''F'', Some ''F''])) = [''F'']"
    by code_simp+
  from dummies_count [OF v, of example_columns example_scaler]
  obtain e where e: "encode_features ?after = Inr e"
    and obj: "\<forall>f\<in>set features. \<forall>vs. get_series ?after f = Inr (ObjCol vs) \<longrightarrow>
            generated_columns f e
              = map (\<lambda>l. f @ ''_'' @ l) (drop 1 (sort (observed (ObjCol vs))))"
    and sal: "generated_columns ''salary_bin'' e
              = [''salary_bin_medium'', ''salary_bin_high'', ''salary_bin_very_high'']"
    by blast
  from obj [rule_format, OF fd d] have gd: "generated_columns ''dept_name'' e = [''dept_name_Sales'']"
    by (simp add: od)
  from obj [rule_format, OF fs s] have gs: "generated_columns ''sex'' e = []"
    by (simp add: os)
  from v d s e gd gs sal show ?thesis by blast
qed

end
